theory Spec2Isabelle
  imports Complex_Main "HOL-Library.Char_ord" "HOL-Library.List_Lexorder"
begin

section \<open>Exceptions and the environment of \<open>sim/tools/tools.py\<close>\<close>

text \<open>
  The Python exceptions that the modelled code raises or catches. All of them are
  subclasses of \<open>Exception\<close>, so an \<open>except Exception\<close> clause catches each one.
\<close>

datatype exc =
    ValueError
  | TypeError
  | AttributeError
  | FileNotFoundError
  | FileExistsError
  | IsADirectoryError
  | NotADirectoryError
  | PermissionError
  | JSONDecodeError

text \<open>
  The file system is a map from path strings to nodes. A regular file carries its
  permissions and its decoded text. Paths are compared as strings (no normalisation of
  \<open>a//b\<close> or \<open>a/./b\<close>), and the empty path names no node.
\<close>

datatype node = Dir | File (readable: bool) (writable: bool) (content: string)

type_synonym filesystem = "string \<rightharpoonup> node"

definition endswith :: "string \<Rightarrow> string \<Rightarrow> bool" where
  "endswith s suffix = (take (length suffix) (rev s) = rev suffix)"

text \<open>\<open>os.path.dirname\<close> of \<open>posixpath\<close>: everything up to the last slash, with
  trailing slashes removed unless the head consists of slashes only.\<close>

definition dirname :: "string \<Rightarrow> string" where
  "dirname p =
     (let head = rev (dropWhile (\<lambda>c. c \<noteq> CHR ''/'') (rev p))
      in if head \<noteq> [] \<and> \<not> list_all (\<lambda>c. c = CHR ''/'') head
         then rev (dropWhile (\<lambda>c. c = CHR ''/'') (rev head))
         else head)"

definition path_exists :: "filesystem \<Rightarrow> string \<Rightarrow> bool" where
  "path_exists fs p = (p \<noteq> [] \<and> fs p \<noteq> None)"

text \<open>A path whose directory part is empty lives in the current directory, which exists.\<close>

definition parent_is_dir :: "filesystem \<Rightarrow> string \<Rightarrow> exc option" where
  "parent_is_dir fs p =
     (if dirname p = [] \<or> dirname p = p then None
      else case fs (dirname p) of
             None \<Rightarrow> Some FileNotFoundError
           | Some Dir \<Rightarrow> None
           | Some (File _ _ _) \<Rightarrow> Some NotADirectoryError)"

text \<open>\<open>os.mkdir\<close>: creates one directory; the parent must exist.\<close>

definition mkdir :: "filesystem \<Rightarrow> string \<Rightarrow> exc + filesystem" where
  "mkdir fs p =
     (if p = [] then Inl FileNotFoundError
      else if fs p \<noteq> None then Inl FileExistsError
      else case parent_is_dir fs p of
             Some e \<Rightarrow> Inl e
           | None \<Rightarrow> Inr (fs(p \<mapsto> Dir)))"


text \<open>\<open>open(path, "r")\<close> followed by reading the whole file.\<close>

definition open_read :: "filesystem \<Rightarrow> string \<Rightarrow> exc + string" where
  "open_read fs p =
     (if p = [] then Inl FileNotFoundError
      else case fs p of
             None \<Rightarrow> Inl FileNotFoundError
           | Some Dir \<Rightarrow> Inl IsADirectoryError
           | Some (File r w t) \<Rightarrow> if r then Inr t else Inl PermissionError)"

text \<open>\<open>open(path, "w+")\<close>: the file is created or truncated when it is opened.\<close>

definition open_truncate :: "filesystem \<Rightarrow> string \<Rightarrow> exc + filesystem" where
  "open_truncate fs p =
     (if p = [] then Inl FileNotFoundError
      else case fs p of
             Some Dir \<Rightarrow> Inl IsADirectoryError
           | Some (File r w t) \<Rightarrow>
               if w then Inr (fs(p \<mapsto> File r w [])) else Inl PermissionError
           | None \<Rightarrow>
               (case parent_is_dir fs p of
                  Some e \<Rightarrow> Inl e
                | None \<Rightarrow> Inr (fs(p \<mapsto> File True True []))))"

text \<open>\<open>open(path, "a+")\<close>: the file is created when absent and kept otherwise.\<close>

definition open_append :: "filesystem \<Rightarrow> string \<Rightarrow> exc + filesystem" where
  "open_append fs p =
     (if p = [] then Inl FileNotFoundError
      else case fs p of
             Some Dir \<Rightarrow> Inl IsADirectoryError
           | Some (File r w t) \<Rightarrow> if w then Inr fs else Inl PermissionError
           | None \<Rightarrow>
               (case parent_is_dir fs p of
                  Some e \<Rightarrow> Inl e
                | None \<Rightarrow> Inr (fs(p \<mapsto> File True True []))))"



section \<open>The logger factory \<open>get_logger\<close>\<close>

text \<open>
  The state of the \<open>logging\<close> module is its registry of loggers by name. A logger has
  the attributes that \<open>get_logger\<close> reads or writes; a file handler records the
  arguments it was built with.
\<close>

record handler =
  filename :: string
  mode :: string
  encoding :: string
  hlevel :: int
  formatter :: string

record logger =
  propagate :: bool
  level :: int
  handlers :: "handler list"

record world =
  fs :: filesystem
  loggers :: "string \<rightharpoonup> logger"

text \<open>\<open>logging.getLogger(name)\<close>: the logger registered under the name, created on
  first use with level \<open>NOTSET\<close> and no handler. The empty name is the root logger.\<close>

definition logger_key :: "string \<Rightarrow> string" where
  "logger_key name = (if name = [] then ''root'' else name)"

definition getLogger :: "world \<Rightarrow> string \<Rightarrow> logger \<times> world" where
  "getLogger w name =
     (case loggers w (logger_key name) of
        Some l \<Rightarrow> (l, w)
      | None \<Rightarrow>
          (let l = \<lparr>propagate = True, level = 0, handlers = []\<rparr>
           in (l, w\<lparr>loggers := (loggers w)(logger_key name \<mapsto> l)\<rparr>)))"

text \<open>\<open>logging.FileHandler(filename, mode, encoding)\<close> opens its stream at once. The
  mode's first letter decides how: \<open>a\<close> appends, \<open>w\<close> truncates, \<open>r\<close> needs the file;
  any other mode is refused by \<open>open\<close>.\<close>

definition FileHandler :: "filesystem \<Rightarrow> string \<Rightarrow> string \<Rightarrow> exc + filesystem" where
  "FileHandler f path m =
     (case m of
        [] \<Rightarrow> Inl ValueError
      | c # _ \<Rightarrow>
          if c = CHR ''a'' then open_append f path
          else if c = CHR ''w'' then open_truncate f path
          else if c = CHR ''r'' then
            (case open_read f path of Inl e \<Rightarrow> Inl e | Inr _ \<Rightarrow> Inr f)
          else Inl ValueError)"

definition INFO :: int where
  "INFO = 20"

text \<open>
  \<open>get_logger(name, file_path, level, mode, encoding, formatter)\<close>. The result is the
  raised exception or the returned logger, together with the state left behind: the
  effects that precede a raise stay.
\<close>

definition get_logger ::
  "string \<Rightarrow> string \<Rightarrow> int \<Rightarrow> string \<Rightarrow> string \<Rightarrow> string \<Rightarrow> world \<Rightarrow> (exc + logger) \<times> world"
where
  "get_logger name file_path lvl m enc fmt w =
     (if file_path \<noteq> [] \<and> \<not> endswith file_path ''.log'' then (Inl ValueError, w)
      else
        case (if \<not> path_exists (fs w) (dirname file_path)
              then mkdir (fs w) (dirname file_path) else Inr (fs w)) of
          Inl e \<Rightarrow> (Inl e, w)
        | Inr fs1 \<Rightarrow>
            (let (l0, w1) = getLogger (w\<lparr>fs := fs1\<rparr>) name;
                 l1 = l0\<lparr>propagate := False, level := lvl\<rparr>;
                 w2 = w1\<lparr>loggers := (loggers w1)(logger_key name \<mapsto> l1)\<rparr>
             in if handlers l1 = [] then
                  (case FileHandler (fs w2) file_path m of
                     Inl e \<Rightarrow> (Inl e, w2)
                   | Inr fs2 \<Rightarrow>
                       (let h = \<lparr>filename = file_path, mode = m, encoding = enc,
                                 hlevel = INFO, formatter = fmt\<rparr>;
                            l2 = l1\<lparr>handlers := handlers l1 @ [h]\<rparr>
                        in (Inr l2, w2\<lparr>fs := fs2, loggers := (loggers w2)(logger_key name \<mapsto> l2)\<rparr>)))
                else (Inr l1, w2)))"


section \<open>Tensors of \<open>sim/tensorflow/layers.py\<close>\<close>

text \<open>
  A tensor of rank three is a list (batch) of lists (sequence) of vectors; its elements
  are real numbers, which stand for the floating-point numbers of the framework (rounding
  is not modelled). An operation of the framework that fails (a shape mismatch, an index
  out of range) yields \<open>None\<close>.
\<close>

type_synonym vec = "real list"
type_synonym matrix = "vec list"
type_synonym tensor3 = "matrix list"

text \<open>Broadcasting along one axis: equal sizes pair up, a size of one is repeated, any
  other pair of sizes is an error.\<close>

definition bcast :: "('a \<Rightarrow> 'b \<Rightarrow> 'c option) \<Rightarrow> 'a list \<Rightarrow> 'b list \<Rightarrow> 'c list option" where
  "bcast g xs ys =
     (if length xs = length ys then those (map (\<lambda>(x, y). g x y) (zip xs ys))
      else if length xs = 1 then those (map (g (hd xs)) ys)
      else if length ys = 1 then those (map (\<lambda>x. g x (hd ys)) xs)
      else None)"

definition elementwise :: "(real \<Rightarrow> real \<Rightarrow> real) \<Rightarrow> tensor3 \<Rightarrow> tensor3 \<Rightarrow> tensor3 option" where
  "elementwise f = bcast (bcast (bcast (\<lambda>x y. Some (f x y))))"

definition tensor_add :: "tensor3 \<Rightarrow> tensor3 \<Rightarrow> tensor3 option" where
  "tensor_add = elementwise (+)"

definition tensor_mul :: "tensor3 \<Rightarrow> tensor3 \<Rightarrow> tensor3 option" where
  "tensor_mul = elementwise (*)"

definition add_scalar :: "tensor3 \<Rightarrow> real \<Rightarrow> tensor3" where
  "add_scalar t c = map (map (map (\<lambda>x. x + c))) t"

text \<open>\<open>tf.tile(input, multiples=[n, 1, 1])\<close> repeats the tensor along the batch axis.\<close>

definition tile_batch :: "nat \<Rightarrow> tensor3 \<Rightarrow> tensor3" where
  "tile_batch n t = concat (replicate n t)"

text \<open>\<open>tf.concat(values=[a, b], axis=-1)\<close>: every axis but the last must agree.\<close>

definition concat_last :: "tensor3 \<Rightarrow> tensor3 \<Rightarrow> tensor3 option" where
  "concat_last a b =
     (if length a = length b then
        those (map (\<lambda>(x, y). if length x = length y
                                then Some (map (\<lambda>(u, v). u @ v) (zip x y)) else None)
                   (zip a b))
      else None)"

text \<open>\<open>tf.gather(params, indices)\<close> along the first axis, for a matrix of indices. An
  index outside \<open>[0, length params)\<close> is an error.\<close>

definition gather_row :: "matrix \<Rightarrow> int \<Rightarrow> vec option" where
  "gather_row params i = (if 0 \<le> i \<and> i < int (length params) then Some (params ! nat i) else None)"

definition gather :: "matrix \<Rightarrow> int list list \<Rightarrow> tensor3 option" where
  "gather params indices = those (map (\<lambda>row. those (map (gather_row params) row)) indices)"


section \<open>\<open>PositionEmbedding\<close>\<close>

text \<open>The argument \<open>hierarchical\<close> is \<open>None\<close>, a boolean or a number.\<close>

datatype hier = HNone | HBool bool | HNum real

fun truthy_hier :: "hier \<Rightarrow> bool" where
  "truthy_hier HNone = False"
| "truthy_hier (HBool b) = b"
| "truthy_hier (HNum r) = (r \<noteq> 0)"

record PositionEmbedding =
  input_dim :: int
  output_dim :: int
  merge_mode :: string
  hierarchical :: hier
  custom_position_ids :: bool

text \<open>\<open>build\<close> creates the weight \<open>embeddings\<close> of shape \<open>(input_dim, output_dim)\<close>.\<close>

definition built :: "PositionEmbedding \<Rightarrow> matrix \<Rightarrow> bool" where
  "built layer embeddings =
     (int (length embeddings) = input_dim layer \<and>
      list_all (\<lambda>row. int (length row) = output_dim layer) embeddings)"

text \<open>The input of \<open>call\<close>: the tensor alone, or the pair of the tensor and the position
  ids when \<open>custom_position_ids\<close> is set.\<close>

datatype call_input = Plain tensor3 | WithIds tensor3 "int list list"

fun inputs_of :: "call_input \<Rightarrow> tensor3" where
  "inputs_of (Plain x) = x"
| "inputs_of (WithIds x ids) = x"

definition seq_len_of :: "tensor3 \<Rightarrow> nat" where
  "seq_len_of x = (case x of [] \<Rightarrow> 0 | m # _ \<Rightarrow> length m)"

text \<open>Lines 58 to 64: the position ids. Unpacking a plain tensor as a pair, or taking the
  shape of a pair, is an error.\<close>

definition position_ids_of :: "PositionEmbedding \<Rightarrow> call_input \<Rightarrow> int list list option" where
  "position_ids_of layer inp =
     (if custom_position_ids layer then
        (case inp of WithIds x ids \<Rightarrow> Some ids | Plain x \<Rightarrow> None)
      else
        (case inp of Plain x \<Rightarrow> Some [map int [0 ..< seq_len_of x]] | WithIds x ids \<Rightarrow> None))"

definition hier_alpha :: "hier \<Rightarrow> real" where
  "hier_alpha h = (case h of HBool True \<Rightarrow> 0.4 | HNum r \<Rightarrow> r | _ \<Rightarrow> 0)"

text \<open>Lines 68 and 69: \<open>(embeddings - alpha * embeddings[:1]) / (1 - alpha)\<close>, the first
  row being broadcast over all rows.\<close>

definition hier_table :: "real \<Rightarrow> matrix \<Rightarrow> matrix" where
  "hier_table alpha embeddings =
     (case embeddings of
        [] \<Rightarrow> []
      | first # _ \<Rightarrow>
          map (\<lambda>row. map (\<lambda>(e, z). (e - alpha * z) / (1 - alpha)) (zip row first)) embeddings)"

definition scale :: "real \<Rightarrow> tensor3 \<Rightarrow> tensor3" where
  "scale c t = map (map (map (\<lambda>x. c * x))) t"

text \<open>Integer \<open>//\<close> and \<open>%\<close> of the framework on a tensor of ids; a zero divisor is an
  error.\<close>

definition ids_floordiv :: "int list list \<Rightarrow> int \<Rightarrow> int list list option" where
  "ids_floordiv ids n = (if n = 0 then None else Some (map (map (\<lambda>p. p div n)) ids))"

definition ids_mod :: "int list list \<Rightarrow> int \<Rightarrow> int list list option" where
  "ids_mod ids n = (if n = 0 then None else Some (map (map (\<lambda>p. p mod n)) ids))"

text \<open>Lines 66 to 77: the position embeddings that are merged with the input.\<close>

definition position_embeddings ::
  "PositionEmbedding \<Rightarrow> matrix \<Rightarrow> call_input \<Rightarrow> tensor3 option"
where
  "position_embeddings layer embeddings inp =
     (case position_ids_of layer inp of
        None \<Rightarrow> None
      | Some position_ids \<Rightarrow>
          if truthy_hier (hierarchical layer) then
            (let alpha = hier_alpha (hierarchical layer);
                 table = hier_table alpha embeddings
             in case ids_floordiv position_ids (input_dim layer) of
                  None \<Rightarrow> None
                | Some ix \<Rightarrow>
                   (case gather table ix of
                      None \<Rightarrow> None
                    | Some embeddings_x \<Rightarrow>
                       (case ids_mod position_ids (input_dim layer) of
                          None \<Rightarrow> None
                        | Some iy \<Rightarrow>
                           (case gather table iy of
                              None \<Rightarrow> None
                            | Some embeddings_y \<Rightarrow>
                                tensor_add (scale alpha embeddings_x)
                                           (scale (1 - alpha) embeddings_y)))))
          else if custom_position_ids layer then gather embeddings position_ids
          else Some [take (seq_len_of (inputs_of inp)) embeddings])"

text \<open>
  The formula of the specification for the hierarchical decomposition: the table
  \<open>E' = (E - alpha * E[0]) / (1 - alpha)\<close>, and for a position \<open>p\<close> the vector
  \<open>alpha * E'[p // n] + (1 - alpha) * E'[p mod n]\<close>.
\<close>

definition spec_table :: "real \<Rightarrow> matrix \<Rightarrow> matrix" where
  "spec_table alpha E =
     map (\<lambda>row. map (\<lambda>(e, z). (e - alpha * z) / (1 - alpha)) (zip row (E ! 0))) E"

definition spec_embedding :: "real \<Rightarrow> int \<Rightarrow> matrix \<Rightarrow> int \<Rightarrow> vec" where
  "spec_embedding alpha n E p =
     map (\<lambda>(x, y). alpha * x + (1 - alpha) * y)
         (zip (spec_table alpha E ! nat (p div n)) (spec_table alpha E ! nat (p mod n)))"

text \<open>Lines 79 to 88: the merge.\<close>

definition merge :: "PositionEmbedding \<Rightarrow> tensor3 \<Rightarrow> tensor3 \<Rightarrow> tensor3 option" where
  "merge layer inputs embeddings =
     (if merge_mode layer = ''add'' then tensor_add inputs embeddings
      else if merge_mode layer = ''mul'' then tensor_mul inputs (add_scalar embeddings 1.0)
      else if merge_mode layer = ''zero'' then Some embeddings
      else concat_last inputs
             (if \<not> custom_position_ids layer
              then tile_batch (length inputs) embeddings else embeddings))"

definition PositionEmbedding_call ::
  "PositionEmbedding \<Rightarrow> matrix \<Rightarrow> call_input \<Rightarrow> tensor3 option"
where
  "PositionEmbedding_call layer embeddings inp =
     (case position_embeddings layer embeddings inp of
        None \<Rightarrow> None
      | Some emb \<Rightarrow> merge layer (inputs_of inp) emb)"


section \<open>\<open>BertSelfAttention\<close>\<close>

text \<open>
  The claims about this layer concern shapes only, and the weights of its projections are
  learned, so a tensor is represented here by its shape.
\<close>

type_synonym shape = "int list"

record BertSelfAttention =
  num_heads :: int
  head_size :: int
  batch_size :: int
  attention_dropout :: real
  use_bias :: bool
  key_size :: int
  hidden_size :: int


text \<open>\<open>keras.layers.Dense(units)\<close> replaces the last dimension by \<open>units\<close>.\<close>

definition dense :: "int \<Rightarrow> shape \<Rightarrow> shape option" where
  "dense units s = (if 0 < units \<and> s \<noteq> [] then Some (butlast s @ [units]) else None)"

text \<open>\<open>tf.reshape\<close>: the target may hold one \<open>-1\<close>, which is inferred from the number of
  elements; the inference fails when the other dimensions do not divide it.\<close>

definition reshape :: "shape \<Rightarrow> shape \<Rightarrow> shape option" where
  "reshape s target =
     (let total = prod_list s;
          known = prod_list (filter (\<lambda>d. d \<noteq> - 1) target);
          unknowns = length (filter (\<lambda>d. d = - 1) target)
      in if list_ex (\<lambda>d. d < - 1) target \<or> list_ex (\<lambda>d. d < 0) s then None
         else if unknowns = 0 then (if known = total then Some target else None)
         else if unknowns = 1 then
           (if known = 0 then None
            else if total mod known = 0
            then Some (map (\<lambda>d. if d = - 1 then total div known else d) target)
            else None)
         else None)"

text \<open>\<open>tf.transpose(x, perm=[0, 2, 1, 3])\<close>.\<close>

definition transpose_0213 :: "shape \<Rightarrow> shape option" where
  "transpose_0213 s = (case s of [a, b, c, d] \<Rightarrow> Some [a, c, b, d] | _ \<Rightarrow> None)"

definition transpose_for_scores :: "BertSelfAttention \<Rightarrow> shape \<Rightarrow> int \<Rightarrow> shape option" where
  "transpose_for_scores layer input_tensor hsize =
     (case reshape input_tensor [batch_size layer, - 1, num_heads layer, hsize] of
        None \<Rightarrow> None
      | Some r \<Rightarrow> transpose_0213 r)"

text \<open>Lines 273 to 275 of \<open>call\<close>: the three projections.\<close>

definition projections ::
  "BertSelfAttention \<Rightarrow> shape \<times> shape \<times> shape \<Rightarrow> (shape \<times> shape \<times> shape) option"
where
  "projections layer qkv =
     (case qkv of (query, key, val) \<Rightarrow>
        (case dense (key_size layer * num_heads layer) query of
           None \<Rightarrow> None
         | Some q \<Rightarrow>
            (case dense (key_size layer * num_heads layer) key of
               None \<Rightarrow> None
             | Some k \<Rightarrow>
                (case dense (head_size layer * num_heads layer) val of
                   None \<Rightarrow> None
                 | Some v \<Rightarrow> Some (q, k, v)))))"

text \<open>Lines 277 to 279 of \<open>call\<close>: the split into heads.\<close>

definition split_heads ::
  "BertSelfAttention \<Rightarrow> shape \<times> shape \<times> shape \<Rightarrow> (shape \<times> shape \<times> shape) option"
where
  "split_heads layer qkv =
     (case qkv of (q, k, v) \<Rightarrow>
        (case transpose_for_scores layer q (key_size layer) of
           None \<Rightarrow> None
         | Some q' \<Rightarrow>
            (case transpose_for_scores layer k (key_size layer) of
               None \<Rightarrow> None
             | Some k' \<Rightarrow>
                (case transpose_for_scores layer v (head_size layer) of
                   None \<Rightarrow> None
                 | Some v' \<Rightarrow> Some (q', k', v')))))"

text \<open>
  \<open>call\<close>. The function \<open>scaled_dot_product_attention\<close> of \<open>sim.tensorflow.common\<close> is not
  among the source files; it is the parameter \<open>attention\<close>, which receives the three
  split tensors and the layer and yields the shapes of the attended tensor and of the
  attention weights.
\<close>

definition BertSelfAttention_call ::
  "(BertSelfAttention \<Rightarrow> shape \<times> shape \<times> shape \<Rightarrow> (shape \<times> shape) option) \<Rightarrow>
   BertSelfAttention \<Rightarrow> shape \<times> shape \<times> shape \<Rightarrow> (shape \<times> shape) option"
where
  "BertSelfAttention_call attention layer qkv =
     (case projections layer qkv of
        None \<Rightarrow> None
      | Some p \<Rightarrow>
         (case split_heads layer p of
            None \<Rightarrow> None
          | Some heads \<Rightarrow>
             (case attention layer heads of
                None \<Rightarrow> None
              | Some (scaled_attention, attention_weights) \<Rightarrow>
                 (case dense (hidden_size layer) scaled_attention of
                    None \<Rightarrow> None
                  | Some attn_outputs \<Rightarrow> Some (attn_outputs, attention_weights)))))"


section \<open>\<open>BertOutput\<close>\<close>

text \<open>The flags \<open>with_pool\<close>, \<open>with_nsp\<close> and \<open>with_mlm\<close> are booleans or, for the first and
  the last, the name of an activation.\<close>

datatype flag = PyFalse | PyTrue | Activation string

fun truthy :: "flag \<Rightarrow> bool" where
  "truthy PyFalse = False"
| "truthy PyTrue = True"
| "truthy (Activation a) = (a \<noteq> [])"

record BertOutput =
  with_pool :: flag
  with_nsp :: flag
  with_mlm :: flag

text \<open>
  The sub-layers that \<open>build\<close> creates and the token embedding passed at construction are
  learned functions on tensors. They are the fields of a record over an arbitrary type
  of tensors.
\<close>

record 't sublayers =
  pooler :: "'t \<Rightarrow> 't"
  pooler_dense :: "'t \<Rightarrow> 't"
  nsp_prob :: "'t \<Rightarrow> 't"
  mlm_dense :: "'t \<Rightarrow> 't"
  mlm_norm :: "'t \<Rightarrow> 't"
  token_embeddings_dense :: "'t \<Rightarrow> 't"
  mlm_bias :: "'t \<Rightarrow> 't"
  mlm_act :: "'t \<Rightarrow> 't"

text \<open>The list \<open>outputs\<close> as it stands after the last statement of \<open>call\<close> (line 390).\<close>

definition BertOutput_outputs :: "BertOutput \<Rightarrow> 't sublayers \<Rightarrow> 't \<Rightarrow> 't list" where
  "BertOutput_outputs layer sub inputs =
     (let outputs = [];
          outputs =
            (if truthy (with_pool layer) then
               (let sub_outputs = pooler sub inputs;
                    sub_outputs = pooler_dense sub sub_outputs;
                    sub_outputs = (if truthy (with_nsp layer)
                                   then nsp_prob sub sub_outputs else sub_outputs)
                in outputs @ [sub_outputs])
             else outputs);
          outputs =
            (if truthy (with_mlm layer) then
               (let sub_outputs = mlm_dense sub inputs;
                    sub_outputs = mlm_norm sub sub_outputs;
                    sub_outputs = token_embeddings_dense sub sub_outputs;
                    sub_outputs = mlm_bias sub sub_outputs;
                    sub_outputs = mlm_act sub sub_outputs
                in outputs @ [sub_outputs])
             else outputs)
      in outputs)"

text \<open>
  \<open>call\<close> ends after line 390 without a \<open>return\<close> statement, so its result is Python's
  \<open>None\<close> whatever the list \<open>outputs\<close> holds.
\<close>

definition BertOutput_call :: "BertOutput \<Rightarrow> 't sublayers \<Rightarrow> 't \<Rightarrow> 't list option" where
  "BertOutput_call layer sub inputs =
     (let outputs = BertOutput_outputs layer sub inputs in None)"


section \<open>Python values and the \<open>json\<close> module\<close>

text \<open>
  The values that the configuration code stores, serialises and loads. A string is a
  list of characters with code points below 256. A finite float is represented by its
  \<open>repr\<close>, the shortest decimal text that reads back as the same float, so that the
  floating-point arithmetic itself is not modelled. A dictionary is the list of its
  items in insertion order; its keys are strings.
\<close>

datatype pyfloat = Finite string | NaN | PosInf | NegInf

datatype pyval =
    PNone
  | PBool bool
  | PInt int
  | PFloat pyfloat
  | PStr string
  | PList "pyval list"
  | PTuple "pyval list"
  | PDict "(string \<times> pyval) list"

type_synonym pydict = "(string \<times> pyval) list"

text \<open>\<open>d[k] = v\<close>: an existing key keeps its place, a new key is appended.\<close>

primrec setitem :: "string \<Rightarrow> pyval \<Rightarrow> pydict \<Rightarrow> pydict" where
  "setitem k v [] = [(k, v)]"
| "setitem k v (p # ps) = (if fst p = k then (k, v) # ps else p # setitem k v ps)"

text \<open>\<open>dict(pairs)\<close> and \<open>d.update(pairs)\<close>: the items are stored one after the other.\<close>

definition dict_update :: "pydict \<Rightarrow> (string \<times> pyval) list \<Rightarrow> pydict" where
  "dict_update d pairs = foldl (\<lambda>acc (k, v). setitem k v acc) d pairs"

text \<open>
  Python's \<open>==\<close> on these values: lists and tuples are compared element by element and
  never equal each other, dictionaries are compared as sets of items whatever their
  order, \<open>NaN\<close> differs from every float and from itself, and a boolean equals the integer
  0 or 1 it stands for. (A finite float equals the float with the same \<open>repr\<close>; the
  equality of an integer and a float of the same magnitude is not modelled.)
\<close>

fun float_eq :: "pyfloat \<Rightarrow> pyfloat \<Rightarrow> bool" where
  "float_eq NaN y = False"
| "float_eq x NaN = False"
| "float_eq x y = (x = y)"

function py_eq :: "pyval \<Rightarrow> pyval \<Rightarrow> bool" where
  "py_eq PNone y = (y = PNone)"
| "py_eq (PBool a) y = (y = PBool a \<or> y = PInt (if a then 1 else 0))"
| "py_eq (PInt i) y = (y = PInt i \<or> (i = 1 \<and> y = PBool True) \<or> (i = 0 \<and> y = PBool False))"
| "py_eq (PFloat x) y = (case y of PFloat z \<Rightarrow> float_eq x z | _ \<Rightarrow> False)"
| "py_eq (PStr s) y = (y = PStr s)"
| "py_eq (PList xs) y =
     (case y of
        PList ys \<Rightarrow> length xs = length ys \<and>
                    (\<forall>i < length xs. py_eq (xs ! i) (ys ! i))
      | _ \<Rightarrow> False)"
| "py_eq (PTuple xs) y =
     (case y of
        PTuple ys \<Rightarrow> length xs = length ys \<and>
                     (\<forall>i < length xs. py_eq (xs ! i) (ys ! i))
      | _ \<Rightarrow> False)"
| "py_eq (PDict kvs) y =
     (case y of
        PDict kvs' \<Rightarrow>
          length kvs = length kvs' \<and>
          (\<forall>(k, v) \<in> set kvs. case map_of kvs' k of None \<Rightarrow> False | Some v' \<Rightarrow> py_eq v v')
      | _ \<Rightarrow> False)"
  by pat_completeness auto
termination
proof (relation "measure (\<lambda>(x, y). size x)")
  show "wf (measure (\<lambda>(x, y). size x))" by simp
next
  fix xs :: "pyval list" and y ys i
  assume "i < length xs"
  then have "xs ! i \<in> set xs" by simp
  then have "size (xs ! i) \<le> size_list size xs" by (rule size_list_estimation') simp
  then show "((xs ! i, ys ! i), (PList xs, y)) \<in> measure (\<lambda>(x, y). size x)" by simp
next
  fix xs :: "pyval list" and y ys i
  assume "i < length xs"
  then have "xs ! i \<in> set xs" by simp
  then have "size (xs ! i) \<le> size_list size xs" by (rule size_list_estimation') simp
  then show "((xs ! i, ys ! i), (PTuple xs, y)) \<in> measure (\<lambda>(x, y). size x)" by simp
next
  fix kvs :: pydict and y and kvs' :: pydict and kv k v v'
  assume "kv \<in> set kvs" and "(k, v) = kv"
  then have "(k, v) \<in> set kvs" by simp
  then have "size_prod (\<lambda>_. 0) size (k, v) \<le> size_list (size_prod (\<lambda>_. 0) size) kvs"
    by (rule size_list_estimation') simp
  then show "((v, v'), (PDict kvs, y)) \<in> measure (\<lambda>(x, y). size x)" by simp
qed


subsection \<open>Characters\<close>

abbreviation DQ :: char where "DQ \<equiv> CHR 0x22"
abbreviation BS :: char where "BS \<equiv> CHR 0x5C"
abbreviation NL :: char where "NL \<equiv> CHR 0x0A"
abbreviation CR :: char where "CR \<equiv> CHR 0x0D"
abbreviation TAB :: char where "TAB \<equiv> CHR 0x09"
abbreviation BSP :: char where "BSP \<equiv> CHR 0x08"
abbreviation FF :: char where "FF \<equiv> CHR 0x0C"
abbreviation SP :: char where "SP \<equiv> CHR 0x20"

definition code :: "char \<Rightarrow> nat" where
  "code c = of_char c"

definition is_digit :: "char \<Rightarrow> bool" where
  "is_digit c = (48 \<le> code c \<and> code c \<le> 57)"

definition digit_char :: "nat \<Rightarrow> char" where
  "digit_char d = char_of (48 + d)"

definition digit_val :: "char \<Rightarrow> nat" where
  "digit_val c = code c - 48"

definition hex_char :: "nat \<Rightarrow> char" where
  "hex_char d = (if d < 10 then char_of (48 + d) else char_of (87 + d))"

definition hex_val :: "char \<Rightarrow> nat option" where
  "hex_val c =
     (if 48 \<le> code c \<and> code c \<le> 57 then Some (code c - 48)
      else if 97 \<le> code c \<and> code c \<le> 102 then Some (code c - 87)
      else if 65 \<le> code c \<and> code c \<le> 70 then Some (code c - 55)
      else None)"

text \<open>The whitespace of JSON: space, tab, line feed, carriage return.\<close>

definition is_ws :: "char \<Rightarrow> bool" where
  "is_ws c = (c = SP \<or> c = TAB \<or> c = NL \<or> c = CR)"

definition skip_ws :: "string \<Rightarrow> string" where
  "skip_ws s = dropWhile is_ws s"


subsection \<open>\<open>json.dumps\<close> and \<open>json.dump\<close>\<close>

text \<open>
  The encoder with an indentation (this code never passes \<open>indent=None\<close>), so that the
  separators are \<open>,\<close> and \<open>: \<close>, with the options \<open>sort_keys\<close> and \<open>ensure_ascii\<close>.
\<close>

record json_options =
  indent :: nat
  sort_keys :: bool
  ensure_ascii :: bool

text \<open>\<open>int.__repr__\<close>: the decimal digits, with a minus sign for a negative number.\<close>

fun digits :: "nat \<Rightarrow> string" where
  "digits n = (if n < 10 then [digit_char n] else digits (n div 10) @ [digit_char (n mod 10)])"

declare digits.simps [simp del]

definition int_repr :: "int \<Rightarrow> string" where
  "int_repr i = (if i < 0 then CHR ''-'' # digits (nat (- i)) else digits (nat i))"

definition float_repr :: "pyfloat \<Rightarrow> string" where
  "float_repr x =
     (case x of Finite r \<Rightarrow> r | NaN \<Rightarrow> ''NaN'' | PosInf \<Rightarrow> ''Infinity''
      | NegInf \<Rightarrow> ''-Infinity'')"

text \<open>
  The escapes of \<open>encode_basestring\<close> and, with \<open>ensure_ascii\<close>, of
  \<open>encode_basestring_ascii\<close>: quote, backslash and the control characters always, and
  with \<open>ensure_ascii\<close> every character outside the range from space to tilde.
\<close>

definition escape_u :: "char \<Rightarrow> string" where
  "escape_u c = [BS, CHR ''u'', CHR ''0'', CHR ''0'', hex_char (code c div 16), hex_char (code c mod 16)]"

definition escape_char :: "bool \<Rightarrow> char \<Rightarrow> string" where
  "escape_char ascii c =
     (if c = DQ then [BS, DQ]
      else if c = BS then [BS, BS]
      else if c = NL then [BS, CHR ''n'']
      else if c = CR then [BS, CHR ''r'']
      else if c = TAB then [BS, CHR ''t'']
      else if c = BSP then [BS, CHR ''b'']
      else if c = FF then [BS, CHR ''f'']
      else if code c < 32 \<or> (ascii \<and> 126 < code c) then escape_u c
      else [c])"

definition encode_basestring :: "bool \<Rightarrow> string \<Rightarrow> string" where
  "encode_basestring ascii s = DQ # concat (map (escape_char ascii) s) @ [DQ]"

definition newline_indent :: "json_options \<Rightarrow> nat \<Rightarrow> string" where
  "newline_indent opts lvl = NL # replicate (indent opts * lvl) SP"

text \<open>\<open>_iterencode\<close> at an indentation level, with the items of a dictionary in the order
  given. A tuple is written as a list.\<close>

fun iterencode :: "json_options \<Rightarrow> nat \<Rightarrow> pyval \<Rightarrow> string"
  and iterencode_list :: "json_options \<Rightarrow> nat \<Rightarrow> pyval list \<Rightarrow> string"
  and iterencode_dict :: "json_options \<Rightarrow> nat \<Rightarrow> pydict \<Rightarrow> string"
where
  "iterencode opts lvl PNone = ''null''"
| "iterencode opts lvl (PBool b) = (if b then ''true'' else ''false'')"
| "iterencode opts lvl (PInt i) = int_repr i"
| "iterencode opts lvl (PFloat x) = float_repr x"
| "iterencode opts lvl (PStr s) = encode_basestring (ensure_ascii opts) s"
| "iterencode opts lvl (PList xs) =
     (if xs = [] then ''[]''
      else ''['' @ newline_indent opts (Suc lvl) @ iterencode_list opts (Suc lvl) xs
           @ newline_indent opts lvl @ '']'')"
| "iterencode opts lvl (PTuple xs) =
     (if xs = [] then ''[]''
      else ''['' @ newline_indent opts (Suc lvl) @ iterencode_list opts (Suc lvl) xs
           @ newline_indent opts lvl @ '']'')"
| "iterencode opts lvl (PDict kvs) =
     (if kvs = [] then ''{}''
      else ''{'' @ newline_indent opts (Suc lvl) @ iterencode_dict opts (Suc lvl) kvs
           @ newline_indent opts lvl @ ''}'')"
| "iterencode_list opts lvl [] = []"
| "iterencode_list opts lvl (x # xs) =
     iterencode opts lvl x @
     (if xs = [] then [] else '','' @ newline_indent opts lvl @ iterencode_list opts lvl xs)"
| "iterencode_dict opts lvl [] = []"
| "iterencode_dict opts lvl (kv # kvs) =
     encode_basestring (ensure_ascii opts) (fst kv) @ '': '' @ iterencode opts lvl (snd kv) @
     (if kvs = [] then [] else '','' @ newline_indent opts lvl @ iterencode_dict opts lvl kvs)"

text \<open>With \<open>sort_keys\<close> the encoder writes the items of every dictionary in the order of
  \<open>sorted(dct.items())\<close>, which for distinct string keys is the order of the keys.\<close>

fun sort_items :: "pyval \<Rightarrow> pyval" where
  "sort_items (PList xs) = PList (map sort_items xs)"
| "sort_items (PTuple xs) = PTuple (map sort_items xs)"
| "sort_items (PDict kvs) = PDict (sort_key fst (map (\<lambda>(k, v). (k, sort_items v)) kvs))"
| "sort_items v = v"

definition json_dumps :: "json_options \<Rightarrow> pyval \<Rightarrow> string" where
  "json_dumps opts obj = iterencode opts 0 (if sort_keys opts then sort_items obj else obj)"


subsection \<open>\<open>json.loads\<close> and \<open>json.load\<close>\<close>

text \<open>
  \<open>NUMBER_RE\<close>: an optional minus sign, then \<open>0\<close> or a digit from 1 to 9 followed by
  digits; then, optionally, a point followed by at least one digit; then, optionally,
  \<open>e\<close> or \<open>E\<close>, an optional sign and at least one digit. The result is the matched text,
  whether it has a fraction or an exponent, and the rest of the input.
\<close>

definition scan_int_part :: "string \<Rightarrow> (string \<times> string) option" where
  "scan_int_part s =
     (case s of
        [] \<Rightarrow> None
      | c # cs \<Rightarrow>
          if c = CHR ''0'' then Some ([c], cs)
          else if is_digit c then Some (c # takeWhile is_digit cs, dropWhile is_digit cs)
          else None)"

definition scan_frac :: "string \<Rightarrow> string \<times> string" where
  "scan_frac s =
     (case s of
        c # d # ds \<Rightarrow>
          if c = CHR ''.'' \<and> is_digit d
          then (c # takeWhile is_digit (d # ds), dropWhile is_digit (d # ds))
          else ([], s)
      | _ \<Rightarrow> ([], s))"

definition scan_exp :: "string \<Rightarrow> string \<times> string" where
  "scan_exp s =
     (case s of
        e # r \<Rightarrow>
          if e = CHR ''e'' \<or> e = CHR ''E'' then
            (case r of
               g # d # ds \<Rightarrow>
                 if (g = CHR ''+'' \<or> g = CHR ''-'') \<and> is_digit d
                 then (e # g # takeWhile is_digit (d # ds), dropWhile is_digit (d # ds))
                 else if is_digit g
                 then (e # takeWhile is_digit r, dropWhile is_digit r)
                 else ([], s)
             | [g] \<Rightarrow> if is_digit g then ([e, g], []) else ([], s)
             | [] \<Rightarrow> ([], s))
          else ([], s)
      | [] \<Rightarrow> ([], s))"

definition match_number :: "string \<Rightarrow> (string \<times> bool \<times> string) option" where
  "match_number s =
     (let (sign, s0) = (case s of c # cs \<Rightarrow> if c = CHR ''-'' then ([c], cs) else ([], s)
                        | [] \<Rightarrow> ([], s))
      in case scan_int_part s0 of
           None \<Rightarrow> None
         | Some (ip, s1) \<Rightarrow>
             (let (frac, s2) = scan_frac s1; (ex, s3) = scan_exp s2
              in Some (sign @ ip @ frac @ ex, frac \<noteq> [] \<or> ex \<noteq> [], s3)))"

text \<open>\<open>int(text)\<close> for a text that \<open>NUMBER_RE\<close> matched without fraction and exponent.\<close>

definition nat_of_digits :: "string \<Rightarrow> nat" where
  "nat_of_digits s = foldl (\<lambda>acc c. 10 * acc + digit_val c) 0 s"

definition int_of_text :: "string \<Rightarrow> int" where
  "int_of_text s =
     (case s of
        c # cs \<Rightarrow> if c = CHR ''-'' then - int (nat_of_digits cs) else int (nat_of_digits s)
      | [] \<Rightarrow> 0)"

text \<open>The repr of a finite float is a text that \<open>NUMBER_RE\<close> matches as a whole, with a
  fraction or an exponent.\<close>

definition float_text :: "string \<Rightarrow> bool" where
  "float_text r = (match_number r = Some (r, True, []))"

text \<open>
  \<open>scanstring\<close> in strict mode, from behind the opening quote: the decoded string and
  the input behind the closing quote. An escape \<open>\uXXXX\<close> for a code point of 256 or
  more denotes a string outside this model and is treated as an error.
\<close>

definition unescape :: "char \<Rightarrow> char option" where
  "unescape e =
     (if e = DQ then Some DQ
      else if e = BS then Some BS
      else if e = CHR ''/'' then Some (CHR ''/'')
      else if e = CHR ''b'' then Some BSP
      else if e = CHR ''f'' then Some FF
      else if e = CHR ''n'' then Some NL
      else if e = CHR ''r'' then Some CR
      else if e = CHR ''t'' then Some TAB
      else None)"

definition hex4 :: "char \<Rightarrow> char \<Rightarrow> char \<Rightarrow> char \<Rightarrow> nat option" where
  "hex4 a b c d =
     (case (hex_val a, hex_val b, hex_val c, hex_val d) of
        (Some w, Some x, Some y, Some z) \<Rightarrow> Some (((w * 16 + x) * 16 + y) * 16 + z)
      | _ \<Rightarrow> None)"

fun scanstring :: "string \<Rightarrow> (string \<times> string) option" where
  "scanstring [] = None"
| "scanstring (c # cs) =
     (if c = DQ then Some ([], cs)
      else if c = BS then
        (case cs of
           [] \<Rightarrow> None
         | e # es \<Rightarrow>
             if e = CHR ''u'' then
               (case es of
                  h1 # h2 # h3 # h4 # r \<Rightarrow>
                    (case hex4 h1 h2 h3 h4 of
                       None \<Rightarrow> None
                     | Some n \<Rightarrow>
                         if n < 256 then
                           (case scanstring r of
                              None \<Rightarrow> None
                            | Some (t, r') \<Rightarrow> Some (char_of n # t, r'))
                         else None)
                | _ \<Rightarrow> None)
             else
               (case unescape e of
                  None \<Rightarrow> None
                | Some ch \<Rightarrow>
                    (case scanstring es of
                       None \<Rightarrow> None
                     | Some (t, r') \<Rightarrow> Some (ch # t, r'))))
      else if code c < 32 then None
      else
        (case scanstring cs of
           None \<Rightarrow> None
         | Some (t, r') \<Rightarrow> Some (c # t, r')))"

text \<open>A literal at the head of the input.\<close>

definition starts_with :: "string \<Rightarrow> string \<Rightarrow> bool" where
  "starts_with s lit = (take (length lit) s = lit)"

text \<open>
  \<open>scan_once\<close>, \<open>JSONArray\<close> and \<open>JSONObject\<close>. The first argument bounds the number of
  nested calls; \<open>json_loads\<close> gives as much as the length of the text can use up. The
  array and object parsers start at the first element, after the opening bracket and
  the whitespace behind it.
\<close>

fun scan_once :: "nat \<Rightarrow> string \<Rightarrow> (pyval \<times> string) option"
  and JSONArray :: "nat \<Rightarrow> string \<Rightarrow> (pyval list \<times> string) option"
  and JSONObject :: "nat \<Rightarrow> string \<Rightarrow> (pydict \<times> string) option"
where
  "scan_once 0 s = None"
| "scan_once (Suc n) s =
     (case s of
        [] \<Rightarrow> None
      | c # cs \<Rightarrow>
          if c = DQ then
            (case scanstring cs of None \<Rightarrow> None | Some (t, r) \<Rightarrow> Some (PStr t, r))
          else if c = CHR ''{'' then
            (case skip_ws cs of
               [] \<Rightarrow> None
             | d # ds \<Rightarrow>
                 if d = CHR ''}'' then Some (PDict [], ds)
                 else (case JSONObject n (d # ds) of
                         None \<Rightarrow> None
                       | Some (pairs, r) \<Rightarrow> Some (PDict (dict_update [] pairs), r)))
          else if c = CHR ''['' then
            (case skip_ws cs of
               [] \<Rightarrow> None
             | d # ds \<Rightarrow>
                 if d = CHR '']'' then Some (PList [], ds)
                 else (case JSONArray n (d # ds) of
                         None \<Rightarrow> None
                       | Some (vs, r) \<Rightarrow> Some (PList vs, r)))
          else if starts_with s ''null'' then Some (PNone, drop 4 s)
          else if starts_with s ''true'' then Some (PBool True, drop 4 s)
          else if starts_with s ''false'' then Some (PBool False, drop 5 s)
          else
            (case match_number s of
               Some (t, is_float, r) \<Rightarrow>
                 Some (if is_float then PFloat (Finite t) else PInt (int_of_text t), r)
             | None \<Rightarrow>
                 if starts_with s ''NaN'' then Some (PFloat NaN, drop 3 s)
                 else if starts_with s ''Infinity'' then Some (PFloat PosInf, drop 8 s)
                 else if starts_with s ''-Infinity'' then Some (PFloat NegInf, drop 9 s)
                 else None))"
| "JSONArray 0 s = None"
| "JSONArray (Suc n) s =
     (case scan_once n s of
        None \<Rightarrow> None
      | Some (v, r) \<Rightarrow>
          (case skip_ws r of
             [] \<Rightarrow> None
           | d # ds \<Rightarrow>
               if d = CHR '']'' then Some ([v], ds)
               else if d = CHR '','' then
                 (case JSONArray n (skip_ws ds) of
                    None \<Rightarrow> None
                  | Some (vs, r') \<Rightarrow> Some (v # vs, r'))
               else None))"
| "JSONObject 0 s = None"
| "JSONObject (Suc n) s =
     (case s of
        [] \<Rightarrow> None
      | q # s1 \<Rightarrow>
          if q \<noteq> DQ then None
          else
            (case scanstring s1 of
               None \<Rightarrow> None
             | Some (k, s2) \<Rightarrow>
                 (case skip_ws s2 of
                    [] \<Rightarrow> None
                  | c # s3 \<Rightarrow>
                      if c \<noteq> CHR '':'' then None
                      else
                        (case scan_once n (skip_ws s3) of
                           None \<Rightarrow> None
                         | Some (v, s4) \<Rightarrow>
                             (case skip_ws s4 of
                                [] \<Rightarrow> None
                              | d # ds \<Rightarrow>
                                  if d = CHR ''}'' then Some ([(k, v)], ds)
                                  else if d = CHR '','' then
                                    (case JSONObject n (skip_ws ds) of
                                       None \<Rightarrow> None
                                     | Some (kvs, r') \<Rightarrow> Some ((k, v) # kvs, r'))
                                  else None)))))"

definition json_loads :: "string \<Rightarrow> exc + pyval" where
  "json_loads s =
     (case scan_once (2 * length s + 2) (skip_ws s) of
        None \<Rightarrow> Inl JSONDecodeError
      | Some (v, r) \<Rightarrow> if skip_ws r = [] then Inr v else Inl JSONDecodeError)"

text \<open>What a text written by \<open>json_dumps\<close> reads back as: tuples have become lists.\<close>

fun listified :: "pyval \<Rightarrow> pyval" where
  "listified (PList xs) = PList (map listified xs)"
| "listified (PTuple xs) = PList (map listified xs)"
| "listified (PDict kvs) = PDict (map (\<lambda>(k, v). (k, listified v)) kvs)"
| "listified v = v"

text \<open>
  Well-formed values: the keys of every dictionary are distinct (as in any Python
  dictionary) and every finite float carries a float text.
\<close>

fun wf_val :: "pyval \<Rightarrow> bool" where
  "wf_val (PFloat (Finite r)) = float_text r"
| "wf_val (PList xs) = list_all wf_val xs"
| "wf_val (PTuple xs) = list_all wf_val xs"
| "wf_val (PDict kvs) = (distinct (map fst kvs) \<and> list_all (\<lambda>(k, v). wf_val v) kvs)"
| "wf_val v = True"

text \<open>The values that JSON represents as they are: no tuple and no \<open>NaN\<close> inside.\<close>

fun json_native :: "pyval \<Rightarrow> bool" where
  "json_native (PFloat x) = (x \<noteq> NaN)"
| "json_native (PList xs) = list_all json_native xs"
| "json_native (PTuple xs) = False"
| "json_native (PDict kvs) = list_all (\<lambda>(k, v). json_native v) kvs"
| "json_native v = True"

subsection \<open>Notions used in the proofs about the encoder and the decoder\<close>

text \<open>What may follow an encoded value in a text that the encoder writes: nothing, a
  comma or a line feed.\<close>

definition delim :: "string \<Rightarrow> bool" where
  "delim rest = (case rest of [] \<Rightarrow> True | c # _ \<Rightarrow> c = CHR '','' \<or> c = NL)"

text \<open>The first character of an encoded value decides how the decoder reads it.\<close>

definition first_ok :: "string \<Rightarrow> bool" where
  "first_ok s = (s \<noteq> [] \<and> \<not> is_ws (hd s) \<and> hd s \<noteq> CHR '']'' \<and> hd s \<noteq> CHR ''}'' )"

text \<open>A number of nested calls that suffices to decode an encoded value.\<close>

fun need :: "pyval \<Rightarrow> nat"
  and need_list :: "pyval list \<Rightarrow> nat"
  and need_dict :: "pydict \<Rightarrow> nat"
where
  "need (PList xs) = Suc (need_list xs)"
| "need (PTuple xs) = Suc (need_list xs)"
| "need (PDict kvs) = Suc (need_dict kvs)"
| "need PNone = 1"
| "need (PBool b) = 1"
| "need (PInt i) = 1"
| "need (PFloat x) = 1"
| "need (PStr s) = 1"
| "need_list [] = 0"
| "need_list (x # xs) = Suc (need x + need_list xs)"
| "need_dict [] = 0"
| "need_dict (kv # kvs) = Suc (need (snd kv) + need_dict kvs)"

text \<open>\<open>sep.join(parts)\<close>, to describe the layout of an encoded object.\<close>

fun join :: "string \<Rightarrow> string list \<Rightarrow> string" where
  "join sep [] = []"
| "join sep [x] = x"
| "join sep (x # y # ys) = x @ sep @ join sep (y # ys)"


section \<open>Model-config persistence in \<open>sim/tools/tools.py\<close>\<close>

text \<open>
  The clock: \<open>datetime.now()\<close> is an input of the model. \<open>strftime\<close> with the format
  \<open>%Y-%m-%d %H:%M:%S\<close> writes the year in decimal (the C library does not pad it) and
  the other fields with two digits.
\<close>

record datetime =
  year :: nat
  month :: nat
  day :: nat
  hour :: nat
  minute :: nat
  second :: nat

definition valid_datetime :: "datetime \<Rightarrow> bool" where
  "valid_datetime d =
     (1 \<le> year d \<and> year d \<le> 9999 \<and> 1 \<le> month d \<and> month d \<le> 12 \<and>
      1 \<le> day d \<and> day d \<le> 31 \<and> hour d < 24 \<and> minute d < 60 \<and> second d < 60)"



text \<open>The shape \<open>YYYY-MM-DD HH:MM:SS\<close>.\<close>

definition is_timestamp :: "string \<Rightarrow> bool" where
  "is_timestamp s =
     (length s = 19 \<and>
      list_all is_digit (take 4 s) \<and> s ! 4 = CHR ''-'' \<and>
      list_all is_digit (take 2 (drop 5 s)) \<and> s ! 7 = CHR ''-'' \<and>
      list_all is_digit (take 2 (drop 8 s)) \<and> s ! 10 = SP \<and>
      list_all is_digit (take 2 (drop 11 s)) \<and> s ! 13 = CHR '':'' \<and>
      list_all is_digit (take 2 (drop 14 s)) \<and> s ! 16 = CHR '':'' \<and>
      list_all is_digit (take 2 (drop 17 s)))"



text \<open>
  \<open>get_model_config(key, config_path)\<close>: the raised exception or the returned value.
  Calling \<open>.get\<close> on a loaded JSON value that is not an object raises \<open>AttributeError\<close>,
  which the \<open>except\<close> clause catches like every other exception.
\<close>

definition get_model_config :: "string \<Rightarrow> string \<Rightarrow> filesystem \<Rightarrow> exc + pyval" where
  "get_model_config key config_path f =
     (if \<not> path_exists f config_path then Inl FileNotFoundError
      else
        case open_read f config_path of
          Inl e \<Rightarrow> Inr (PDict [])
        | Inr txt \<Rightarrow>
            (case json_loads txt of
               Inl e \<Rightarrow> Inr (PDict [])
             | Inr (PDict d) \<Rightarrow>
                 (case map_of d key of Some v \<Rightarrow> Inr v | None \<Rightarrow> Inr (PDict []))
             | Inr _ \<Rightarrow> Inr (PDict [])))"


section \<open>\<open>BertConfig\<close> of \<open>sim/bert_base/__init__.py\<close>\<close>

text \<open>
  An instance is its attribute dictionary \<open>__dict__\<close>. \<open>__init__\<close> assigns the eleven
  fields in the order of lines 47 to 57; Python does not check the annotated types, so
  every argument is an arbitrary value.
\<close>

definition BertConfig_init ::
  "pyval \<Rightarrow> pyval \<Rightarrow> pyval \<Rightarrow> pyval \<Rightarrow> pyval \<Rightarrow> pyval \<Rightarrow> pyval \<Rightarrow> pyval \<Rightarrow> pyval \<Rightarrow> pyval \<Rightarrow> pyval
   \<Rightarrow> pydict"
where
  "BertConfig_init vocab_size' hidden_size' num_hidden_layers' num_attention_heads'
     intermediate_size' hidden_act' hidden_dropout_prob' attention_prob_dropout_prob'
     max_position_embeddings' type_vocab_size' initializer_range' =
     [(''vocab_size'', vocab_size'),
      (''hidden_size'', hidden_size'),
      (''num_hidden_layers'', num_hidden_layers'),
      (''num_attention_heads'', num_attention_heads'),
      (''hidden_act'', hidden_act'),
      (''intermediate_size'', intermediate_size'),
      (''hidden_dropout_prob'', hidden_dropout_prob'),
      (''attention_prob_dropout_prob'', attention_prob_dropout_prob'),
      (''max_position_embeddings'', max_position_embeddings'),
      (''type_vocab_size'', type_vocab_size'),
      (''initializer_range'', initializer_range')]"

text \<open>\<open>BertConfig(vocab_size=v)\<close> with the default values of the other parameters.\<close>

definition BertConfig_default :: "pyval \<Rightarrow> pydict" where
  "BertConfig_default v =
     BertConfig_init v (PInt 768) (PInt 12) (PInt 12) (PInt 3072) (PStr ''gelu'')
       (PFloat (Finite ''0.1'')) (PFloat (Finite ''0.1'')) (PInt 512) (PInt 2)
       (PFloat (Finite ''0.02''))"

text \<open>\<open>from_dict\<close>: a value without \<open>items()\<close> raises \<open>AttributeError\<close>.\<close>

definition from_dict :: "pyval \<Rightarrow> exc + pydict" where
  "from_dict json_obj =
     (case json_obj of
        PDict d \<Rightarrow> Inr (dict_update (BertConfig_default (PInt 0)) d)
      | _ \<Rightarrow> Inl AttributeError)"

text \<open>\<open>to_dict\<close> is a deep copy, that is the same value.\<close>

definition to_dict :: "pydict \<Rightarrow> pydict" where
  "to_dict self = self"

definition to_json_string :: "pydict \<Rightarrow> string" where
  "to_json_string self =
     json_dumps \<lparr>indent = 2, sort_keys = True, ensure_ascii = True\<rparr> (PDict (to_dict self))"

text \<open>The class invariant: an instance has the eleven fields of \<open>__init__\<close>.\<close>

definition is_BertConfig :: "pydict \<Rightarrow> bool" where
  "is_BertConfig self =
     (distinct (map fst self) \<and>
      set (map fst (BertConfig_default (PInt 0))) \<subseteq> set (map fst self))"

text \<open>The items of an instance in the order in which \<open>to_json_string\<close> writes them.\<close>

definition written_items :: "pydict \<Rightarrow> pydict" where
  "written_items self = sort_key fst (map (\<lambda>(k, v). (k, sort_items v)) (to_dict self))"


section \<open>Properties of the logger factory\<close>

lemma get_logger_result_registered:
  assumes "get_logger name p l m e f w = (Inr lg, w1)"
  shows "handlers lg \<noteq> [] \<and> loggers w1 (logger_key name) = Some lg"
  using assms
  by (auto simp: get_logger_def getLogger_def Let_def
           split: if_splits sum.splits option.splits prod.splits)

lemma get_logger_keeps_handlers:
  assumes "loggers w1 (logger_key name) = Some lg" and "handlers lg \<noteq> []"
  shows "case get_logger name p l m e f w1 of
           (Inr lg2, w2) \<Rightarrow>
             handlers lg2 = handlers lg \<and>
             map_option handlers (loggers w2 (logger_key name)) = Some (handlers lg)
         | (Inl x, w2) \<Rightarrow>
             map_option handlers (loggers w2 (logger_key name)) = Some (handlers lg)"
  using assms
  by (auto simp: get_logger_def getLogger_def Let_def
           split: if_splits sum.splits option.splits prod.splits)

lemma get_logger_directory_stays:
  assumes "get_logger name p l m e f w = (Inr lg, w1)"
  shows "(p = [] \<or> endswith p ''.log'') \<and> path_exists (fs w1) (dirname p)"
  using assms
  by (auto simp: get_logger_def getLogger_def Let_def path_exists_def mkdir_def
                 FileHandler_def open_append_def open_truncate_def open_read_def
           split: if_splits sum.splits option.splits prod.splits list.splits node.splits)

lemma get_logger_again_returns:
  assumes "loggers w1 (logger_key name) = Some lg" and "handlers lg \<noteq> []"
    and "p = [] \<or> endswith p ''.log''" and "path_exists (fs w1) (dirname p)"
  shows "\<exists>lg2 w2. get_logger name p l m e f w1 = (Inr lg2, w2)"
  using assms
  by (auto simp: get_logger_def getLogger_def Let_def)

text \<open>
  Claim C8, as amended. A non-empty \<open>file_path\<close> that does not end with \<open>.log\<close> makes
  \<open>get_logger\<close> raise \<open>ValueError\<close> at once: the state is returned untouched, so no
  directory, logger or handler has been created.
\<close>

theorem get_logger_rejects_non_log_path:
  "file_path \<noteq> [] \<Longrightarrow> \<not> endswith file_path ''.log'' \<Longrightarrow>
   get_logger name file_path lvl m enc fmt w = (Inl ValueError, w)"
  by (simp add: get_logger_def)

theorem get_logger_rejects_non_log_path_witness:
  "''run.txt'' \<noteq> [] \<and> \<not> endswith ''run.txt'' ''.log'' \<and>
   get_logger ''train'' ''run.txt'' INFO ''a+'' ''utf-8'' ''%(message)s''
       \<lparr>fs = Map.empty, loggers = Map.empty\<rparr>
     = (Inl ValueError, \<lparr>fs = Map.empty, loggers = Map.empty\<rparr>)"
  using get_logger_rejects_non_log_path
          [of "''run.txt''" "''train''" INFO "''a+''" "''utf-8''" "''%(message)s''"
              "\<lparr>fs = Map.empty, loggers = Map.empty\<rparr>"]
  by (simp add: endswith_def)

text \<open>
  Claim C8, as stated, fails at the empty path: it does not end with \<open>.log\<close>, yet the
  guard \<open>if file_path and ...\<close> lets it pass, and the exception that follows is the
  \<open>FileNotFoundError\<close> of \<open>os.mkdir('')\<close>, not a \<open>ValueError\<close>.
\<close>

theorem get_logger_empty_path_counterexample:
  "\<not> endswith [] ''.log'' \<and>
   fst (get_logger ''train'' [] INFO ''a+'' ''utf-8'' ''%(message)s''
          \<lparr>fs = Map.empty, loggers = Map.empty\<rparr>) = Inl FileNotFoundError \<and>
   fst (get_logger ''train'' [] INFO ''a+'' ''utf-8'' ''%(message)s''
          \<lparr>fs = Map.empty, loggers = Map.empty\<rparr>) \<noteq> Inl ValueError"
  by (simp add: get_logger_def endswith_def dirname_def path_exists_def mkdir_def)

text \<open>
  Claim C9. After a call of \<open>get_logger\<close> that returned a logger, a second call with the
  same name adds no handler, whatever its other arguments are: the logger registered
  under the name keeps exactly the handlers it had, and so does the logger the second
  call returns. With the same path the second call does return.
\<close>

theorem get_logger_no_duplicate_handler:
  assumes "get_logger name file_path lvl m enc fmt w = (Inr lg1, w1)"
  shows "handlers lg1 \<noteq> [] \<and>
         (\<exists>lg2 w2. get_logger name file_path lvl' m' enc' fmt' w1 = (Inr lg2, w2) \<and>
                    handlers lg2 = handlers lg1) \<and>
         (case get_logger name p2 lvl' m' enc' fmt' w1 of
            (Inr lg2, w2) \<Rightarrow>
              handlers lg2 = handlers lg1 \<and>
              map_option handlers (loggers w2 (logger_key name)) = Some (handlers lg1)
          | (Inl x, w2) \<Rightarrow>
              map_option handlers (loggers w2 (logger_key name)) = Some (handlers lg1))"
proof -
  from get_logger_result_registered[OF assms]
  have reg: "loggers w1 (logger_key name) = Some lg1" and ne: "handlers lg1 \<noteq> []"
    by simp_all
  from get_logger_directory_stays[OF assms]
  have path: "file_path = [] \<or> endswith file_path ''.log''"
    and dir: "path_exists (fs w1) (dirname file_path)"
    by simp_all
  from get_logger_again_returns[OF reg ne path dir]
  obtain lg2 w2 where again: "get_logger name file_path lvl' m' enc' fmt' w1 = (Inr lg2, w2)"
    by blast
  from get_logger_keeps_handlers[OF reg ne, of file_path lvl' m' enc' fmt'] again
  have "handlers lg2 = handlers lg1" by simp
  with again have same: "\<exists>lg2 w2. get_logger name file_path lvl' m' enc' fmt' w1 = (Inr lg2, w2) \<and>
                    handlers lg2 = handlers lg1"
    by blast
  from ne same get_logger_keeps_handlers[OF reg ne, of p2 lvl' m' enc' fmt']
  show ?thesis by simp
qed

theorem get_logger_no_duplicate_handler_witness:
  "fst (get_logger ''train'' ''logs/run.log'' INFO ''a+'' ''utf-8'' ''%(message)s''
          \<lparr>fs = [''logs'' \<mapsto> Dir], loggers = Map.empty\<rparr>)
     = Inr \<lparr>propagate = False, level = INFO,
            handlers = [\<lparr>filename = ''logs/run.log'', mode = ''a+'', encoding = ''utf-8'',
                         hlevel = INFO, formatter = ''%(message)s''\<rparr>]\<rparr> \<and>
   (\<exists>lg2 w2.
      get_logger ''train'' ''logs/run.log'' 10 ''w'' ''ascii'' ''%(levelname)s''
          (snd (get_logger ''train'' ''logs/run.log'' INFO ''a+'' ''utf-8'' ''%(message)s''
                  \<lparr>fs = [''logs'' \<mapsto> Dir], loggers = Map.empty\<rparr>))
        = (Inr lg2, w2) \<and>
      handlers lg2 = [\<lparr>filename = ''logs/run.log'', mode = ''a+'', encoding = ''utf-8'',
                        hlevel = INFO, formatter = ''%(message)s''\<rparr>])"
proof -
  let ?w = "\<lparr>fs = [''logs'' \<mapsto> Dir], loggers = Map.empty\<rparr>"
  let ?r = "get_logger ''train'' ''logs/run.log'' INFO ''a+'' ''utf-8'' ''%(message)s'' ?w"
  let ?h = "\<lparr>filename = ''logs/run.log'', mode = ''a+'', encoding = ''utf-8'',
             hlevel = INFO, formatter = ''%(message)s''\<rparr>"
  have first: "fst ?r = Inr \<lparr>propagate = False, level = INFO, handlers = [?h]\<rparr>"
    by (simp add: get_logger_def endswith_def dirname_def path_exists_def getLogger_def
                  logger_key_def FileHandler_def open_append_def parent_is_dir_def Let_def)
  then have "?r = (Inr \<lparr>propagate = False, level = INFO, handlers = [?h]\<rparr>, snd ?r)"
    by (metis prod.collapse)
  from get_logger_no_duplicate_handler[OF this, of 10 "''w''" "''ascii''" "''%(levelname)s''"]
  show ?thesis using first by simp
qed


section \<open>Properties of \<open>BertSelfAttention\<close>\<close>






section \<open>Properties of \<open>BertOutput\<close>\<close>

text \<open>
  Claim C1 (the code departs from it). \<open>call\<close> builds the list the claim describes, the
  pooled (and, with \<open>with_nsp\<close>, classified) output followed by the MLM output, in its
  local variable \<open>outputs\<close>, but it returns \<open>None\<close> for every configuration and every
  input, because it has no \<open>return\<close> statement.
\<close>

theorem BertOutput_call_returns_nothing:
  "BertOutput_call layer sub inputs = None \<and>
   BertOutput_outputs layer sub inputs =
     (if truthy (with_pool layer)
      then [if truthy (with_nsp layer)
            then nsp_prob sub (pooler_dense sub (pooler sub inputs))
            else pooler_dense sub (pooler sub inputs)]
      else []) @
     (if truthy (with_mlm layer)
      then [mlm_act sub (mlm_bias sub (token_embeddings_dense sub
                                        (mlm_norm sub (mlm_dense sub inputs))))]
      else [])"
  by (simp add: BertOutput_call_def BertOutput_outputs_def Let_def)


section \<open>Properties of \<open>PositionEmbedding\<close>\<close>

lemma those_map_Some:
  "(\<And>x. x \<in> set xs \<Longrightarrow> f x = Some (g x)) \<Longrightarrow> those (map f xs) = Some (map g xs)"
  by (induction xs) simp_all

lemma bcast_same_length:
  assumes "length xs = length ys"
    and "\<And>x y. (x, y) \<in> set (zip xs ys) \<Longrightarrow> g x y = Some (h x y)"
  shows "bcast g xs ys = Some (map (\<lambda>(x, y). h x y) (zip xs ys))"
proof -
  have "those (map (\<lambda>(x, y). g x y) (zip xs ys)) = Some (map (\<lambda>(x, y). h x y) (zip xs ys))"
    by (rule those_map_Some) (use assms(2) in auto)
  then show ?thesis using assms(1) by (simp add: bcast_def)
qed

lemma zip_maps_same: "zip (map f xs) (map g xs) = map (\<lambda>x. (f x, g x)) xs"
  by (induction xs) simp_all

lemma bcast_maps:
  assumes "\<And>x. x \<in> set xs \<Longrightarrow> g (a x) (b x) = Some (h x)"
  shows "bcast g (map a xs) (map b xs) = Some (map h xs)"
proof -
  have "those (map (\<lambda>(x, y). g x y) (zip (map a xs) (map b xs))) = Some (map h xs)"
    using assms by (induction xs) simp_all
  then show ?thesis by (simp add: bcast_def)
qed


lemma gather_in_range:
  assumes "\<And>row p. row \<in> set ids \<Longrightarrow> p \<in> set row \<Longrightarrow> 0 \<le> f p \<and> f p < int (length t)"
  shows "gather t (map (map f) ids) = Some (map (map (\<lambda>p. t ! nat (f p))) ids)"
proof -
  have "those (map (\<lambda>row. those (map (gather_row t) row)) (map (map f) ids))
        = Some (map (map (\<lambda>p. t ! nat (f p))) ids)"
    unfolding map_map comp_def
  proof (rule those_map_Some)
    fix row assume r: "row \<in> set ids"
    show "those (map (\<lambda>x. gather_row t (f x)) row) = Some (map (\<lambda>p. t ! nat (f p)) row)"
      by (rule those_map_Some) (use assms[OF r] in \<open>simp add: gather_row_def\<close>)
  qed
  then show ?thesis by (simp add: gather_def)
qed

lemma index_bounds:
  fixes p n :: int
  assumes "0 < n" "0 \<le> p" "p \<le> n ^ 2 - 1"
  shows "0 \<le> p div n \<and> p div n < n \<and> 0 \<le> p mod n \<and> p mod n < n"
proof -
  have "p < n * n" using assms by (simp add: power2_eq_square)
  note this
  have "p div n < n"
  proof (rule ccontr)
    assume "\<not> p div n < n"
    then have "n * n \<le> n * (p div n)"
      using assms(1) by (simp add: mult_left_mono)
    moreover have "0 \<le> p mod n"
      using assms(1) by simp
    moreover have "p = n * (p div n) + p mod n"
      by simp
    ultimately show False using \<open>p < n * n\<close> by linarith
  qed
  moreover have "0 \<le> p div n" using assms by (simp add: pos_imp_zdiv_nonneg_iff)
  ultimately show ?thesis using assms by simp
qed


lemma hier_table_spec: "hier_table alpha E = spec_table alpha E"
  by (cases E) (simp_all add: hier_table_def spec_table_def)

lemma spec_table_row_length:
  assumes "built layer E" and "i < length E"
  shows "length (spec_table alpha E ! i) = nat (output_dim layer)"
proof -
  from assms(2) have "0 < length E" by (cases E) simp_all
  with assms(2) have "E ! i \<in> set E" and "E ! 0 \<in> set E"
    by (simp_all only: nth_mem)
  with assms(1) have "int (length (E ! i)) = output_dim layer" "int (length (E ! 0)) = output_dim layer"
    by (auto simp: built_def list_all_iff)
  then show ?thesis using assms(2) by (simp add: spec_table_def)
qed

lemma weighted_sum:
  assumes "length u = length v"
  shows "bcast (\<lambda>x y. Some (x + y)) (map ((*) a) u) (map ((*) b) v)
         = Some (map (\<lambda>(x, y). a * x + b * y) (zip u v))"
proof -
  have "bcast (\<lambda>x y. Some (x + y)) (map ((*) a) u) (map ((*) b) v)
        = Some (map (\<lambda>(x, y). x + y) (zip (map ((*) a) u) (map ((*) b) v)))"
    by (rule bcast_same_length) (use assms in simp_all)
  also have "map (\<lambda>(x, y). x + y) (zip (map ((*) a) u) (map ((*) b) v))
             = map (\<lambda>(x, y). a * x + b * y) (zip u v)"
    by (auto simp add: zip_map_map)
  finally show ?thesis .
qed

text \<open>
  Claim C3. With the hierarchical decomposition enabled, the factor \<open>alpha\<close> is 0.4 for
  \<open>hierarchical = True\<close> and the given number otherwise. For a built table with
  \<open>input_dim > 0\<close> rows and position ids that all lie in \<open>[0, input_dim^2 - 1]\<close>, both lookup
  indices \<open>p // input_dim\<close> and \<open>p mod input_dim\<close> lie in \<open>[0, input_dim)\<close>, the lookups do
  not fail, and the embedding of each position \<open>p\<close> is
  \<open>alpha * E'[p // input_dim] + (1 - alpha) * E'[p mod input_dim]\<close>.
\<close>

theorem hierarchical_position_embedding:
  assumes tab: "built layer E" and pos: "0 < input_dim layer"
    and hier: "truthy_hier (hierarchical layer)"
    and ids: "position_ids_of layer inp = Some ids"
    and rng: "\<forall>row \<in> set ids. \<forall>p \<in> set row. 0 \<le> p \<and> p \<le> input_dim layer ^ 2 - 1"
  shows "hier_alpha (HBool True) = 0.4 \<and> hier_alpha (HNum r) = r \<and>
         (\<forall>row \<in> set ids. \<forall>p \<in> set row.
            0 \<le> p div input_dim layer \<and> p div input_dim layer < int (length E) \<and>
            0 \<le> p mod input_dim layer \<and> p mod input_dim layer < int (length E)) \<and>
         position_embeddings layer E inp =
           Some (map (map (spec_embedding (hier_alpha (hierarchical layer)) (input_dim layer) E)) ids)"
proof -
  let ?n = "input_dim layer"
  let ?a = "hier_alpha (hierarchical layer)"
  let ?T = "spec_table ?a E"
  have len: "int (length E) = ?n" and lenT: "length ?T = length E"
    using tab by (simp_all add: built_def spec_table_def)
  have bounds: "0 \<le> p div ?n \<and> p div ?n < int (length E) \<and>
                0 \<le> p mod ?n \<and> p mod ?n < int (length E)"
    if "row \<in> set ids" and "p \<in> set row" for row p
    using index_bounds[OF pos, of p] rng that len by auto
  have gx: "gather ?T (map (map (\<lambda>p. p div ?n)) ids)
            = Some (map (map (\<lambda>p. ?T ! nat (p div ?n))) ids)"
    by (rule gather_in_range) (use bounds lenT in auto)
  have gy: "gather ?T (map (map (\<lambda>p. p mod ?n)) ids)
            = Some (map (map (\<lambda>p. ?T ! nat (p mod ?n))) ids)"
    by (rule gather_in_range) (use bounds lenT in auto)
  have inner: "bcast (\<lambda>x y. Some (x + y)) (map ((*) ?a) (?T ! nat (p div ?n)))
                     (map ((*) (1 - ?a)) (?T ! nat (p mod ?n)))
               = Some (spec_embedding ?a ?n E p)"
    if "row \<in> set ids" and "p \<in> set row" for row p
  proof -
    from bounds[OF that] have "nat (p div ?n) < length E" "nat (p mod ?n) < length E"
      by auto
    then have "length (?T ! nat (p div ?n)) = length (?T ! nat (p mod ?n))"
      using spec_table_row_length[OF tab] by simp
    from weighted_sum[OF this] show ?thesis by (simp add: spec_embedding_def)
  qed
  have middle: "bcast (bcast (\<lambda>x y. Some (x + y)))
                  (map (\<lambda>p. map ((*) ?a) (?T ! nat (p div ?n))) row)
                  (map (\<lambda>p. map ((*) (1 - ?a)) (?T ! nat (p mod ?n))) row)
                = Some (map (spec_embedding ?a ?n E) row)"
    if "row \<in> set ids" for row
    by (rule bcast_maps) (use inner that in auto)
  have outer: "tensor_add (scale ?a (map (map (\<lambda>p. ?T ! nat (p div ?n))) ids))
                          (scale (1 - ?a) (map (map (\<lambda>p. ?T ! nat (p mod ?n))) ids))
               = Some (map (map (spec_embedding ?a ?n E)) ids)"
    unfolding tensor_add_def elementwise_def scale_def map_map comp_def
    by (rule bcast_maps) (use middle in auto)
  have "position_embeddings layer E inp = Some (map (map (spec_embedding ?a ?n E)) ids)"
    using pos hier ids gx gy outer
    by (simp add: position_embeddings_def Let_def ids_floordiv_def ids_mod_def hier_table_spec)
  then show ?thesis using bounds by (simp add: hier_alpha_def)
qed

theorem hierarchical_position_embedding_witness:
  "built \<lparr>input_dim = 2, output_dim = 1, merge_mode = ''add'', hierarchical = HBool True,
          custom_position_ids = True\<rparr> [[1], [2]] \<and>
   position_embeddings
       \<lparr>input_dim = 2, output_dim = 1, merge_mode = ''add'', hierarchical = HBool True,
         custom_position_ids = True\<rparr>
       [[1], [2]] (WithIds [[[0], [0]]] [[0, 3]])
     = Some [[[1], [8 / 3]]]"
  using hierarchical_position_embedding
          [of "\<lparr>input_dim = 2, output_dim = 1, merge_mode = ''add'', hierarchical = HBool True,
                 custom_position_ids = True\<rparr>"
              "[[1], [2]]" "WithIds [[[0], [0]]] [[0, 3]]" "[[0, 3]]"]
  by (simp add: built_def position_ids_of_def spec_embedding_def spec_table_def hier_alpha_def)

text \<open>
  Claim C6, as amended. Given the position embedding \<open>emb\<close>, \<open>call\<close> returns the
  elementwise (broadcasting) sum of input and embedding for \<open>add\<close>, the product of the
  input with \<open>emb + 1\<close> for \<open>mul\<close>, the embedding alone for \<open>zero\<close>, and for any other mode
  the concatenation along the last axis of the input with the embedding, which is tiled
  across the batch dimension first unless custom position ids are in use.
\<close>

theorem position_embedding_merge_modes:
  assumes "position_embeddings layer E inp = Some emb"
  shows "PositionEmbedding_call layer E inp =
           (if merge_mode layer = ''add'' then tensor_add (inputs_of inp) emb
            else if merge_mode layer = ''mul'' then tensor_mul (inputs_of inp) (add_scalar emb 1)
            else if merge_mode layer = ''zero'' then Some emb
            else if custom_position_ids layer then concat_last (inputs_of inp) emb
            else concat_last (inputs_of inp) (tile_batch (length (inputs_of inp)) emb))"
  using assms by (simp add: PositionEmbedding_call_def merge_def)

theorem position_embedding_merge_modes_witness:
  "position_embeddings
       \<lparr>input_dim = 2, output_dim = 1, merge_mode = ''add'', hierarchical = HNone,
         custom_position_ids = False\<rparr>
       [[10], [20]] (Plain [[[1], [2]], [[3], [4]]])
     = Some [[[10], [20]]] \<and>
   PositionEmbedding_call
       \<lparr>input_dim = 2, output_dim = 1, merge_mode = ''add'', hierarchical = HNone,
         custom_position_ids = False\<rparr>
       [[10], [20]] (Plain [[[1], [2]], [[3], [4]]])
     = Some [[[11], [22]], [[13], [24]]] \<and>
   PositionEmbedding_call
       \<lparr>input_dim = 2, output_dim = 1, merge_mode = ''mul'', hierarchical = HNone,
         custom_position_ids = False\<rparr>
       [[10], [20]] (Plain [[[1], [2]], [[3], [4]]])
     = Some [[[11], [42]], [[33], [84]]] \<and>
   PositionEmbedding_call
       \<lparr>input_dim = 2, output_dim = 1, merge_mode = ''zero'', hierarchical = HNone,
         custom_position_ids = False\<rparr>
       [[10], [20]] (Plain [[[1], [2]], [[3], [4]]])
     = Some [[[10], [20]]] \<and>
   PositionEmbedding_call
       \<lparr>input_dim = 2, output_dim = 1, merge_mode = ''concat'', hierarchical = HNone,
         custom_position_ids = False\<rparr>
       [[10], [20]] (Plain [[[1], [2]], [[3], [4]]])
     = Some [[[1, 10], [2, 20]], [[3, 10], [4, 20]]]"
proof -
  let ?x = "Plain [[[1], [2]], [[3], [4]]]"
  let ?E = "[[10], [20]] :: matrix"
  have emb: "position_embeddings
               \<lparr>input_dim = 2, output_dim = 1, merge_mode = m, hierarchical = HNone,
                 custom_position_ids = False\<rparr> ?E ?x = Some [[[10], [20]]]" for m
    by (simp add: position_embeddings_def position_ids_of_def seq_len_of_def)
  show ?thesis
    using emb[of "''add''"]
      position_embedding_merge_modes[OF emb[of "''add''"]]
      position_embedding_merge_modes[OF emb[of "''mul''"]]
      position_embedding_merge_modes[OF emb[of "''zero''"]]
      position_embedding_merge_modes[OF emb[of "''concat''"]]
    by (simp add: tensor_add_def tensor_mul_def elementwise_def bcast_def add_scalar_def
                  concat_last_def tile_batch_def)
qed

text \<open>
  Claim C6, as stated, fails with custom position ids: the gathered embedding already has
  the batch dimension and is concatenated as it is. Tiling it across the batch first, as
  the claim says, would give a tensor that cannot be concatenated with the input.
\<close>

theorem position_embedding_concat_counterexample:
  "position_embeddings
       \<lparr>input_dim = 2, output_dim = 1, merge_mode = ''concat'', hierarchical = HNone,
         custom_position_ids = True\<rparr>
       [[10], [20]] (WithIds [[[1]], [[2]]] [[0], [1]])
     = Some [[[10]], [[20]]] \<and>
   PositionEmbedding_call
       \<lparr>input_dim = 2, output_dim = 1, merge_mode = ''concat'', hierarchical = HNone,
         custom_position_ids = True\<rparr>
       [[10], [20]] (WithIds [[[1]], [[2]]] [[0], [1]])
     = Some [[[1, 10]], [[2, 20]]] \<and>
   concat_last [[[1]], [[2]]] (tile_batch (length [[[1 :: real]], [[2]]]) [[[10]], [[20]]]) = None"
  by (simp add: PositionEmbedding_call_def merge_def position_embeddings_def position_ids_of_def
                gather_def gather_row_def concat_last_def tile_batch_def)


section \<open>The decoder reads back what the encoder writes\<close>

subsection \<open>Strings\<close>

lemma code_less_256: "code c < 256"
  by (simp add: code_def)

lemma char_of_code: "char_of (code c) = c"
  by (simp add: code_def)

lemma code_char_of: "n < 256 \<Longrightarrow> code (char_of n) = n"
  by (simp add: code_def)

lemma hex_val_hex_char: "d < 16 \<Longrightarrow> hex_val (hex_char d) = Some d"
  by (auto simp: hex_val_def hex_char_def code_char_of)

lemma hex4_escape:
  "hex4 (CHR ''0'') (CHR ''0'') (hex_char (code c div 16)) (hex_char (code c mod 16)) = Some (code c)"
proof -
  have "code c div 16 < 16" using code_less_256[of c] by simp
  then have "hex_val (hex_char (code c div 16)) = Some (code c div 16)"
    by (rule hex_val_hex_char)
  moreover have "hex_val (hex_char (code c mod 16)) = Some (code c mod 16)"
    by (rule hex_val_hex_char) simp
  moreover have "hex_val (CHR ''0'') = Some 0"
    by (simp add: hex_val_def code_def)
  ultimately show ?thesis by (simp add: hex4_def)
qed

lemma scanstring_escape_char:
  "scanstring (escape_char a c @ tl0) =
     (case scanstring tl0 of None \<Rightarrow> None | Some (t, r) \<Rightarrow> Some (c # t, r))"
proof -
  have u: "scanstring (escape_u c @ tl0) =
     (case scanstring tl0 of None \<Rightarrow> None | Some (t, r) \<Rightarrow> Some (c # t, r))"
    using hex4_escape[of c] code_less_256[of c]
    by (simp add: escape_u_def char_of_code split: option.splits)
  show ?thesis
    unfolding escape_char_def using u
    by (auto simp: unescape_def code_def split: option.splits)
qed

lemma scanstring_encoded:
  "scanstring (concat (map (escape_char a) s) @ DQ # rest) = Some (s, rest)"
  by (induction s) (simp_all add: scanstring_escape_char)

subsection \<open>Numbers\<close>

lemma delim_no_digit: "delim rest \<Longrightarrow> takeWhile is_digit rest = [] \<and> dropWhile is_digit rest = rest"
  by (cases rest) (auto simp: delim_def is_digit_def code_def)

lemma digits_before_delim:
  "delim rest \<Longrightarrow> takeWhile is_digit (xs @ rest) = takeWhile is_digit xs \<and>
                  dropWhile is_digit (xs @ rest) = dropWhile is_digit xs @ rest"
  by (induction xs) (simp_all add: delim_no_digit)

lemma scan_int_part_append:
  "delim rest \<Longrightarrow> scan_int_part s = Some (ip, r) \<Longrightarrow> scan_int_part (s @ rest) = Some (ip, r @ rest)"
  by (cases s) (auto simp: scan_int_part_def digits_before_delim split: if_splits)

lemma scan_frac_append:
  assumes "delim rest" and "scan_frac s = (f, r)"
  shows "scan_frac (s @ rest) = (f, r @ rest)"
proof (cases s)
  case Nil
  with assms show ?thesis
    by (cases rest; cases "tl rest") (auto simp: scan_frac_def delim_def)
next
  case (Cons c cs)
  note s = this
  show ?thesis
  proof (cases cs)
    case Nil
    with s assms show ?thesis
      by (cases rest) (auto simp: scan_frac_def delim_def is_digit_def code_def)
  next
    case (Cons d ds)
    with s assms digits_before_delim[OF assms(1), of "d # ds"] show ?thesis
      by (auto simp: scan_frac_def split: if_splits)
  qed
qed


lemma scan_exp_append:
  assumes "delim rest" and "scan_exp s = (e, r)"
  shows "scan_exp (s @ rest) = (e, r @ rest)"
proof (cases s)
  case Nil
  with assms show ?thesis
    by (cases rest) (auto simp: scan_exp_def delim_def)
next
  case (Cons c cs)
  note s = this
  show ?thesis
  proof (cases cs)
    case Nil
    with s assms show ?thesis
      by (cases rest; cases "tl rest")
         (auto simp: scan_exp_def delim_def is_digit_def code_def)
  next
    case (Cons g gs)
    note cs = this
    show ?thesis
    proof (cases gs)
      case Nil
      with s cs assms delim_no_digit[OF assms(1)] show ?thesis
        by (cases rest)
           (auto simp: scan_exp_def delim_def is_digit_def code_def split: if_splits)
    next
      case (Cons d ds)
      with s cs assms digits_before_delim[OF assms(1), of "d # ds"]
        digits_before_delim[OF assms(1), of "g # d # ds"]
      show ?thesis
        by (auto simp: scan_exp_def split: if_splits)
    qed
  qed
qed

lemma match_number_append:
  assumes "delim rest" and "match_number s = Some (t, b, r)"
  shows "match_number (s @ rest) = Some (t, b, r @ rest)"
proof -
  obtain sign s0 where sg: "(case s of c # cs \<Rightarrow> if c = CHR ''-'' then ([c], cs) else ([], s)
                        | [] \<Rightarrow> ([], s)) = (sign, s0)"
    by (cases "(case s of c # cs \<Rightarrow> if c = CHR ''-'' then ([c], cs) else ([], s) | [] \<Rightarrow> ([], s))") auto
  from assms(2) sg obtain ip s1 where ip: "scan_int_part s0 = Some (ip, s1)"
    by (auto simp: match_number_def split: option.splits)
  obtain f s2 where f: "scan_frac s1 = (f, s2)" by (cases "scan_frac s1") auto
  obtain e s3 where e: "scan_exp s2 = (e, s3)" by (cases "scan_exp s2") auto
  from assms(2) sg ip f e have res: "t = sign @ ip @ f @ e" "b = (f \<noteq> [] \<or> e \<noteq> [])" "r = s3"
    by (auto simp: match_number_def)
  have s0_ne: "s0 \<noteq> []" using ip by (auto simp: scan_int_part_def)
  have sg': "(case s @ rest of c # cs \<Rightarrow> if c = CHR ''-'' then ([c], cs) else ([], s @ rest)
                        | [] \<Rightarrow> ([], s @ rest)) = (sign, s0 @ rest)"
    using sg s0_ne by (cases s) (auto split: if_splits)
  show ?thesis
    using sg' scan_int_part_append[OF assms(1) ip] scan_frac_append[OF assms(1) f]
      scan_exp_append[OF assms(1) e] res
    by (simp add: match_number_def)
qed


lemma code_inj: "code c = code d \<longleftrightarrow> c = d"
  by (simp add: code_def)

lemma digit_char_props:
  "d < 10 \<Longrightarrow> is_digit (digit_char d) \<and> digit_val (digit_char d) = d \<and>
              digit_char d \<noteq> CHR ''-'' \<and> (digit_char d = CHR ''0'' \<longleftrightarrow> d = 0)"
proof -
  assume d: "d < 10"
  then have c: "code (digit_char d) = 48 + d"
    by (simp add: digit_char_def code_def)
  have "digit_char d = CHR ''0'' \<longleftrightarrow> code (digit_char d) = code (CHR ''0'')"
    by (simp only: code_inj)
  moreover have "digit_char d = CHR ''-'' \<longleftrightarrow> code (digit_char d) = code (CHR ''-'')"
    by (simp only: code_inj)
  moreover have "code (CHR ''0'') = 48" "code (CHR ''-'') = 45"
    by (simp_all add: code_def)
  ultimately show ?thesis using c d by (simp add: is_digit_def digit_val_def)
qed

lemma digits_all: "list_all is_digit (digits n)"
  by (induction n rule: digits.induct) (subst digits.simps, simp add: digit_char_props)

lemma digits_not_Nil: "digits n \<noteq> []"
  by (subst digits.simps) simp

lemma hd_digits: "hd (digits n) = CHR ''0'' \<longleftrightarrow> n = 0"
proof (induction n rule: digits.induct)
  case (1 n)
  show ?case
  proof (cases "n < 10")
    case True
    then show ?thesis by (subst digits.simps) (simp add: digit_char_props)
  next
    case False
    with 1 have "hd (digits (n div 10)) \<noteq> CHR ''0''" by simp
    with False show ?thesis by (subst digits.simps) (simp add: digits_not_Nil)
  qed
qed

lemma nat_of_digits_snoc: "nat_of_digits (xs @ [c]) = 10 * nat_of_digits xs + digit_val c"
  by (simp add: nat_of_digits_def)

lemma nat_of_digits_digits: "nat_of_digits (digits n) = n"
proof (induction n rule: digits.induct)
  case (1 n)
  show ?case
  proof (cases "n < 10")
    case True
    then show ?thesis
      by (subst digits.simps) (simp add: nat_of_digits_def digit_char_props)
  next
    case False
    with 1 have "nat_of_digits (digits (n div 10)) = n div 10" by simp
    with False show ?thesis
      by (subst digits.simps) (simp add: nat_of_digits_snoc digit_char_props)
  qed
qed

lemma scan_int_part_digits: "scan_int_part (digits n) = Some (digits n, [])"
proof (cases "digits n")
  case Nil
  then show ?thesis using digits_not_Nil by simp
next
  case (Cons c cs)
  with digits_all[of n] have dig: "is_digit c" "list_all is_digit cs" by simp_all
  then have tw: "takeWhile is_digit cs = cs" "dropWhile is_digit cs = []"
    by (simp_all add: list_all_iff)
  show ?thesis
  proof (cases "n = 0")
    case True
    then have "digits n = [CHR ''0'']"
      by (subst digits.simps) (simp add: digit_char_props)
    then show ?thesis by (simp add: scan_int_part_def)
  next
    case False
    then have "c \<noteq> CHR ''0''" using hd_digits[of n] Cons by simp
    then show ?thesis using Cons dig tw by (simp add: scan_int_part_def)
  qed
qed

lemma hd_digits_not_minus: "hd (digits n) \<noteq> CHR ''-''"
proof -
  have "is_digit (hd (digits n))"
    using digits_all[of n] digits_not_Nil[of n] by (cases "digits n") simp_all
  then show ?thesis by (auto simp: is_digit_def code_def)
qed

lemma match_number_int_repr: "match_number (int_repr i) = Some (int_repr i, False, [])"
proof (cases "i < 0")
  case True
  then show ?thesis
    by (simp add: match_number_def int_repr_def scan_int_part_digits scan_frac_def scan_exp_def)
next
  case False
  obtain c cs where d: "digits (nat i) = c # cs"
    using digits_not_Nil[of "nat i"] by (cases "digits (nat i)") auto
  with hd_digits_not_minus[of "nat i"] have "c \<noteq> CHR ''-''" by simp
  with False d scan_int_part_digits[of "nat i"] show ?thesis
    by (simp add: match_number_def int_repr_def scan_frac_def scan_exp_def)
qed

lemma int_of_text_int_repr: "int_of_text (int_repr i) = i"
proof (cases "i < 0")
  case True
  then show ?thesis by (simp add: int_of_text_def int_repr_def nat_of_digits_digits)
next
  case False
  obtain c cs where d: "digits (nat i) = c # cs"
    using digits_not_Nil[of "nat i"] by (cases "digits (nat i)") auto
  with hd_digits_not_minus[of "nat i"] have "c \<noteq> CHR ''-''" by simp
  with False d nat_of_digits_digits[of "nat i"] show ?thesis
    by (simp add: int_of_text_def int_repr_def)
qed

subsection \<open>Values\<close>

lemma skip_ws_spaces: "skip_ws (replicate k SP @ s) = skip_ws s"
  by (induction k) (simp_all add: skip_ws_def is_ws_def)

lemma skip_ws_indent: "skip_ws (newline_indent opts lvl @ s) = skip_ws s"
  using skip_ws_spaces[of "indent opts * lvl" s]
  by (simp add: skip_ws_def newline_indent_def is_ws_def)

lemma skip_ws_same: "s \<noteq> [] \<Longrightarrow> \<not> is_ws (hd s) \<Longrightarrow> skip_ws s = s"
  by (cases s) (simp_all add: skip_ws_def)

lemma float_text_first:
  assumes "float_text r"
  shows "r \<noteq> [] \<and> (hd r = CHR ''-'' \<or> is_digit (hd r))"
proof -
  from assms have m: "match_number r = Some (r, True, [])" by (simp add: float_text_def)
  then have "r \<noteq> []" by (auto simp: match_number_def scan_int_part_def)
  moreover have "hd r = CHR ''-'' \<or> is_digit (hd r)"
    using m by (cases r) (auto simp: match_number_def scan_int_part_def is_digit_def code_def
        split: if_splits option.splits list.splits)
  ultimately show ?thesis by simp
qed

lemma int_repr_first: "int_repr i \<noteq> [] \<and> (hd (int_repr i) = CHR ''-'' \<or> is_digit (hd (int_repr i)))"
  using digits_all[of "nat i"] digits_not_Nil[of "nat i"]
  by (cases "digits (nat i)") (auto simp: int_repr_def)

lemma number_first_ok:
  "t \<noteq> [] \<Longrightarrow> hd t = CHR ''-'' \<or> is_digit (hd t) \<Longrightarrow> first_ok t"
  by (cases t) (auto simp: first_ok_def is_ws_def is_digit_def code_def)

lemma iterencode_first_ok: "wf_val v \<Longrightarrow> first_ok (iterencode opts lvl v)"
proof (cases v)
  case (PFloat x)
  assume "wf_val v"
  with PFloat show ?thesis
    using float_text_first number_first_ok
    by (cases x) (auto simp: float_repr_def first_ok_def is_ws_def)
next
  case (PInt i)
  then show ?thesis using int_repr_first[of i] number_first_ok by simp
qed (auto simp: first_ok_def is_ws_def encode_basestring_def)


lemma scan_once_number:
  assumes "match_number t = Some (t, b, [])" and "delim rest"
  shows "scan_once (Suc n) (t @ rest) =
           Some (if b then PFloat (Finite t) else PInt (int_of_text t), rest)"
proof -
  from assms(1) have ne: "t \<noteq> []"
    by (auto simp: match_number_def scan_int_part_def)
  then obtain c cs where t: "t = c # cs" by (cases t) auto
  have c: "c = CHR ''-'' \<or> is_digit c"
    using assms(1) t
    by (auto simp: match_number_def scan_int_part_def is_digit_def code_def
             split: if_splits option.splits list.splits)
  then have branch: "c \<noteq> DQ" "c \<noteq> CHR ''{''" "c \<noteq> CHR ''[''" "c \<noteq> CHR ''n''"
    "c \<noteq> CHR ''t''" "c \<noteq> CHR ''f''"
    by (auto simp: is_digit_def code_def)
  from match_number_append[OF assms(2) assms(1)]
  have m: "match_number (c # cs @ rest) = Some (t, b, rest)" using t by simp
  show ?thesis
    using branch m by (simp add: t starts_with_def)
qed

lemma scan_once_int:
  "delim rest \<Longrightarrow> scan_once (Suc n) (int_repr i @ rest) = Some (PInt i, rest)"
  using scan_once_number[OF match_number_int_repr, of rest n i]
  by (simp add: int_of_text_int_repr)

lemma scan_once_float:
  "delim rest \<Longrightarrow> float_text r \<Longrightarrow> scan_once (Suc n) (r @ rest) = Some (PFloat (Finite r), rest)"
  using scan_once_number[of r True rest n] by (simp add: float_text_def)

lemma scan_once_str:
  "scan_once (Suc n) (encode_basestring a s @ rest) = Some (PStr s, rest)"
  by (simp add: encode_basestring_def scanstring_encoded)

lemma scan_once_literals:
  "scan_once (Suc n) (''null'' @ rest) = Some (PNone, rest)"
  "scan_once (Suc n) (''true'' @ rest) = Some (PBool True, rest)"
  "scan_once (Suc n) (''false'' @ rest) = Some (PBool False, rest)"
  "scan_once (Suc n) (''NaN'' @ rest) = Some (PFloat NaN, rest)"
  "scan_once (Suc n) (''Infinity'' @ rest) = Some (PFloat PosInf, rest)"
  "scan_once (Suc n) (''-Infinity'' @ rest) = Some (PFloat NegInf, rest)"
  "scan_once (Suc n) (''[]'' @ rest) = Some (PList [], rest)"
  "scan_once (Suc n) (''{}'' @ rest) = Some (PDict [], rest)"
  by (simp_all add: starts_with_def match_number_def scan_int_part_def is_digit_def code_def
                    skip_ws_def is_ws_def)

lemma scan_once_scalar:
  assumes "wf_val v" and "delim rest"
    and "\<And>xs. v \<noteq> PList xs" and "\<And>xs. v \<noteq> PTuple xs" and "\<And>kvs. v \<noteq> PDict kvs"
  shows "scan_once (Suc n) (iterencode opts lvl v @ rest) = Some (listified v, rest)"
proof (cases v)
  case (PFloat x)
  with assms(1,2) show ?thesis
    using scan_once_literals(4-6)[of n rest] scan_once_float[of rest _ n]
    by (cases x) (simp_all add: float_repr_def)
next
  case (PBool b)
  then show ?thesis using scan_once_literals(2,3)[of n rest] by (cases b) simp_all
next
  case PNone
  then show ?thesis using scan_once_literals(1)[of n rest] by simp
next
  case (PInt i)
  then show ?thesis using scan_once_int[OF assms(2)] by simp
next
  case (PStr s)
  then show ?thesis using scan_once_str by simp
qed (use assms in auto)


lemma skip_ws_first_ok: "first_ok s \<Longrightarrow> skip_ws (s @ t) = s @ t"
  by (cases s) (simp_all add: first_ok_def skip_ws_def)

lemma first_ok_append: "first_ok s \<Longrightarrow> first_ok (s @ t)"
  by (cases s) (simp_all add: first_ok_def)

lemma iterencode_list_first_ok:
  "xs \<noteq> [] \<Longrightarrow> list_all wf_val xs \<Longrightarrow> first_ok (iterencode_list opts lvl xs)"
  by (cases xs) (simp_all add: first_ok_append iterencode_first_ok)

lemma encode_basestring_first_ok: "first_ok (encode_basestring a k @ t)"
  by (simp add: encode_basestring_def first_ok_def is_ws_def)

lemma iterencode_dict_first_ok:
  "kvs \<noteq> [] \<Longrightarrow> first_ok (iterencode_dict opts lvl kvs)"
  by (cases kvs) (simp_all add: encode_basestring_first_ok)

lemma setitem_fresh: "k \<notin> fst ` set d \<Longrightarrow> setitem k v d = d @ [(k, v)]"
  by (induction d) auto

lemma dict_update_distinct_aux:
  "distinct (map fst (d @ ps)) \<Longrightarrow> dict_update d ps = d @ ps"
proof (induction ps arbitrary: d)
  case Nil
  then show ?case by (simp add: dict_update_def)
next
  case (Cons p ps)
  obtain k v where p: "p = (k, v)" by (cases p)
  from Cons.prems p have fresh: "k \<notin> fst ` set d" by auto
  from Cons.prems p have "distinct (map fst ((d @ [(k, v)]) @ ps))" by simp
  from Cons.IH[OF this] fresh p show ?case
    by (simp add: dict_update_def setitem_fresh)
qed

lemma dict_update_distinct: "distinct (map fst ps) \<Longrightarrow> dict_update [] ps = ps"
  using dict_update_distinct_aux[of "[]" ps] by simp

lemma delim_simps: "delim (CHR '','' # t)" "delim (NL # t)" "delim []"
  by (simp_all add: delim_def)

lemma decode_encode:
  "wf_val v \<Longrightarrow> delim rest \<Longrightarrow> need v \<le> n \<Longrightarrow>
     scan_once n (iterencode opts lvl v @ rest) = Some (listified v, rest)"
  "xs \<noteq> [] \<Longrightarrow> list_all wf_val xs \<Longrightarrow> need_list xs \<le> n \<Longrightarrow>
     JSONArray n (iterencode_list opts lvl xs @ NL # replicate k SP @ CHR '']'' # rest)
       = Some (map listified xs, rest)"
  "kvs \<noteq> [] \<Longrightarrow> list_all (\<lambda>(k, v). wf_val v) kvs \<Longrightarrow> need_dict kvs \<le> n \<Longrightarrow>
     JSONObject n (iterencode_dict opts lvl kvs @ NL # replicate k SP @ CHR ''}'' # rest)
       = Some (map (\<lambda>(k, v). (k, listified v)) kvs, rest)"
proof (induction opts lvl v and opts lvl xs and opts lvl kvs
       arbitrary: n rest and n rest k and n rest k
       rule: iterencode_iterencode_list_iterencode_dict.induct)
  case (1 opts lvl)
  then obtain m where "n = Suc m" by (cases n) auto
  with 1 show ?case using scan_once_scalar[of PNone rest m opts lvl] by simp
next
  case (2 opts lvl b)
  then obtain m where "n = Suc m" by (cases n) auto
  with 2 show ?case using scan_once_scalar[of "PBool b" rest m opts lvl] by simp
next
  case (3 opts lvl i)
  then obtain m where "n = Suc m" by (cases n) auto
  with 3 show ?case using scan_once_scalar[of "PInt i" rest m opts lvl] by simp
next
  case (4 opts lvl x)
  then obtain m where "n = Suc m" by (cases n) auto
  with 4 show ?case using scan_once_scalar[of "PFloat x" rest m opts lvl] by simp
next
  case (5 opts lvl s)
  then obtain m where "n = Suc m" by (cases n) auto
  with 5 show ?case using scan_once_scalar[of "PStr s" rest m opts lvl] by simp
next
  case (6 opts lvl xs)
  from "6.prems" obtain m where n: "n = Suc m" and m: "need_list xs \<le> m" by (cases n) auto
  show ?case
  proof (cases "xs = []")
    case True
    then show ?thesis using scan_once_literals(7)[of m rest] n by simp
  next
    case False
    from "6.prems" have wf: "list_all wf_val xs" by simp
    let ?tail = "newline_indent opts lvl @ CHR '']'' # rest"
    let ?items = "iterencode_list opts (Suc lvl) xs"
    have fo: "first_ok ?items" by (rule iterencode_list_first_ok[OF False wf])
    then obtain d ds where dd: "?items = d # ds" and d: "d \<noteq> CHR '']''"
      by (cases ?items) (auto simp: first_ok_def)
    have sk: "skip_ws (newline_indent opts (Suc lvl) @ ?items @ ?tail) = d # ds @ ?tail"
      using skip_ws_first_ok[OF fo, of ?tail] dd by (simp add: skip_ws_indent)
    have arr: "JSONArray m (?items @ ?tail) = Some (map listified xs, rest)"
      using "6.IH"[OF False False wf m, of "indent opts * lvl" rest]
      by (simp add: newline_indent_def)
    show ?thesis
      using False n sk d arr dd by simp
  qed
next
  case (7 opts lvl xs)
  from "7.prems" obtain m where n: "n = Suc m" and m: "need_list xs \<le> m" by (cases n) auto
  show ?case
  proof (cases "xs = []")
    case True
    then show ?thesis using scan_once_literals(7)[of m rest] n by simp
  next
    case False
    from "7.prems" have wf: "list_all wf_val xs" by simp
    let ?tail = "newline_indent opts lvl @ CHR '']'' # rest"
    let ?items = "iterencode_list opts (Suc lvl) xs"
    have fo: "first_ok ?items" by (rule iterencode_list_first_ok[OF False wf])
    then obtain d ds where dd: "?items = d # ds" and d: "d \<noteq> CHR '']''"
      by (cases ?items) (auto simp: first_ok_def)
    have sk: "skip_ws (newline_indent opts (Suc lvl) @ ?items @ ?tail) = d # ds @ ?tail"
      using skip_ws_first_ok[OF fo, of ?tail] dd by (simp add: skip_ws_indent)
    have arr: "JSONArray m (?items @ ?tail) = Some (map listified xs, rest)"
      using "7.IH"[OF False False wf m, of "indent opts * lvl" rest]
      by (simp add: newline_indent_def)
    show ?thesis
      using False n sk d arr dd by simp
  qed
next
  case (8 opts lvl kvs)
  from "8.prems" obtain m where n: "n = Suc m" and m: "need_dict kvs \<le> m" by (cases n) auto
  show ?case
  proof (cases "kvs = []")
    case True
    then show ?thesis using scan_once_literals(8)[of m rest] n by simp
  next
    case False
    from "8.prems" have wf: "list_all (\<lambda>(k, v). wf_val v) kvs"
      and dist: "distinct (map fst kvs)" by simp_all
    let ?tail = "newline_indent opts lvl @ CHR ''}'' # rest"
    let ?items = "iterencode_dict opts (Suc lvl) kvs"
    have fo: "first_ok ?items" by (rule iterencode_dict_first_ok[OF False])
    then obtain d ds where dd: "?items = d # ds" and d: "d \<noteq> CHR ''}''"
      by (cases ?items) (auto simp: first_ok_def)
    have sk: "skip_ws (newline_indent opts (Suc lvl) @ ?items @ ?tail) = d # ds @ ?tail"
      using skip_ws_first_ok[OF fo, of ?tail] dd by (simp add: skip_ws_indent)
    have obj: "JSONObject m (?items @ ?tail) = Some (map (\<lambda>(k, v). (k, listified v)) kvs, rest)"
      using "8.IH"[OF False False wf m, of "indent opts * lvl" rest]
      by (simp add: newline_indent_def)
    have "map fst (map (\<lambda>(k, v). (k, listified v)) kvs) = map fst kvs"
      by (induction kvs) auto
    with dist have "distinct (map fst (map (\<lambda>(k, v). (k, listified v)) kvs))"
      by (simp only:)
    then have "dict_update [] (map (\<lambda>(k, v). (k, listified v)) kvs)
                    = map (\<lambda>(k, v). (k, listified v)) kvs"
      by (rule dict_update_distinct)
    then show ?thesis
      using False n sk d obj dd by simp
  qed
next
  case (9 opts lvl)
  then show ?case by simp
next
  case (10 opts lvl x xs)
  from "10.prems" obtain m where n: "n = Suc m" and mx: "need x \<le> m" and ms: "need_list xs \<le> m"
    by (cases n) auto
  from "10.prems" have wfx: "wf_val x" and wfs: "list_all wf_val xs" by simp_all
  let ?close = "NL # replicate k SP @ CHR '']'' # rest"
  show ?case
  proof (cases "xs = []")
    case True
    have "scan_once m (iterencode opts lvl x @ ?close) = Some (listified x, ?close)"
      by (rule "10.IH"(1)[OF wfx _ mx]) (simp add: delim_simps)
    moreover have "skip_ws ?close = CHR '']'' # rest"
      using skip_ws_spaces[of k "CHR '']'' # rest"] by (simp add: skip_ws_def is_ws_def)
    ultimately show ?thesis using True n by simp
  next
    case False
    let ?more = "iterencode_list opts lvl xs @ ?close"
    let ?sep = "CHR '','' # newline_indent opts lvl @ ?more"
    have "scan_once m (iterencode opts lvl x @ ?sep) = Some (listified x, ?sep)"
      by (rule "10.IH"(1)[OF wfx _ mx]) (simp add: delim_simps)
    moreover have "skip_ws ?sep = ?sep"
      by (simp add: skip_ws_def is_ws_def)
    moreover have "skip_ws (newline_indent opts lvl @ ?more) = ?more"
      using skip_ws_first_ok[OF iterencode_list_first_ok[OF False wfs], of opts lvl ?close]
      by (simp add: skip_ws_indent)
    moreover have "JSONArray m ?more = Some (map listified xs, rest)"
      by (rule "10.IH"(2)[OF False False wfs ms])
    ultimately show ?thesis using False n by simp
  qed
next
  case (11 opts lvl)
  then show ?case by simp
next
  case (12 opts lvl kv kvs)
  obtain key v where kv: "kv = (key, v)" by (cases kv)
  from "12.prems" kv obtain m where n: "n = Suc m" and mx: "need v \<le> m"
    and ms: "need_dict kvs \<le> m"
    by (cases n) auto
  from "12.prems" kv have wfx: "wf_val v" and wfs: "list_all (\<lambda>(k, v). wf_val v) kvs"
    by simp_all
  let ?close = "NL # replicate k SP @ CHR ''}'' # rest"
  have ih1: "\<And>n rest. delim rest \<Longrightarrow> need v \<le> n \<Longrightarrow>
               scan_once n (iterencode opts lvl v @ rest) = Some (listified v, rest)"
    using "12.IH"(1) wfx kv by simp
  have key: "\<And>t. scanstring (tl (encode_basestring (ensure_ascii opts) key) @ t) = Some (key, t)"
    by (simp add: encode_basestring_def scanstring_encoded)
  have hdq: "\<And>t. encode_basestring (ensure_ascii opts) key @ t
                 = DQ # tl (encode_basestring (ensure_ascii opts) key) @ t"
    by (simp add: encode_basestring_def)
  have val_skip: "\<And>t. skip_ws (SP # iterencode opts lvl v @ t) = iterencode opts lvl v @ t"
    using skip_ws_first_ok[OF iterencode_first_ok[OF wfx]]
    by (simp add: skip_ws_def is_ws_def)
  show ?case
  proof (cases "kvs = []")
    case True
    have "scan_once m (iterencode opts lvl v @ ?close) = Some (listified v, ?close)"
      by (rule ih1[OF _ mx]) (simp add: delim_simps)
    moreover have "skip_ws ?close = CHR ''}'' # rest"
      using skip_ws_spaces[of k "CHR ''}'' # rest"] by (simp add: skip_ws_def is_ws_def)
    moreover have "skip_ws (CHR '':'' # SP # iterencode opts lvl v @ ?close)
                   = CHR '':'' # SP # iterencode opts lvl v @ ?close"
      by (simp add: skip_ws_def is_ws_def)
    ultimately show ?thesis using True n kv key[of "CHR '':'' # SP # iterencode opts lvl v @ ?close"]
        val_skip[of ?close]
      by (simp add: hdq)
  next
    case False
    let ?more = "iterencode_dict opts lvl kvs @ ?close"
    let ?sep = "CHR '','' # newline_indent opts lvl @ ?more"
    have "scan_once m (iterencode opts lvl v @ ?sep) = Some (listified v, ?sep)"
      by (rule ih1[OF _ mx]) (simp add: delim_simps)
    moreover have "skip_ws ?sep = ?sep"
      by (simp add: skip_ws_def is_ws_def)
    moreover have "skip_ws (newline_indent opts lvl @ ?more) = ?more"
      using skip_ws_first_ok[OF iterencode_dict_first_ok[OF False], of opts lvl ?close]
      by (simp add: skip_ws_indent)
    moreover have "JSONObject m ?more = Some (map (\<lambda>(k, v). (k, listified v)) kvs, rest)"
      by (rule "12.IH"(2)[OF False False wfs ms])
    moreover have "skip_ws (CHR '':'' # SP # iterencode opts lvl v @ ?sep)
                   = CHR '':'' # SP # iterencode opts lvl v @ ?sep"
      by (simp add: skip_ws_def is_ws_def)
    ultimately show ?thesis using False n kv key[of "CHR '':'' # SP # iterencode opts lvl v @ ?sep"]
        val_skip[of ?sep]
      by (simp add: hdq)
  qed
qed

lemma first_ok_length: "first_ok s \<Longrightarrow> 1 \<le> length s"
  by (cases s) (simp_all add: first_ok_def)

lemma need_bound:
  "wf_val v \<Longrightarrow> need v \<le> 2 * length (iterencode opts lvl v)"
  "list_all wf_val xs \<Longrightarrow> need_list xs \<le> 2 * length (iterencode_list opts lvl xs) + 1"
  "list_all (\<lambda>(k, v). wf_val v) kvs \<Longrightarrow>
     need_dict kvs \<le> 2 * length (iterencode_dict opts lvl kvs) + 1"
proof (induction opts lvl v and opts lvl xs and opts lvl kvs
       rule: iterencode_iterencode_list_iterencode_dict.induct)
  case (3 opts lvl i)
  then show ?case using first_ok_length[OF iterencode_first_ok, of "PInt i" opts lvl] by simp
next
  case (4 opts lvl x)
  then show ?case using first_ok_length[OF iterencode_first_ok, of "PFloat x" opts lvl] by simp
next
  case (5 opts lvl s)
  then show ?case by (simp add: encode_basestring_def)
next
  case (10 opts lvl x xs)
  then show ?case
    using first_ok_length[OF iterencode_first_ok, of x opts lvl] by (auto simp: newline_indent_def)
next
  case (12 opts lvl kv kvs)
  then show ?case
    using first_ok_length[OF iterencode_first_ok, of "snd kv" opts lvl]
    by (cases kv) (auto simp: newline_indent_def)
qed (auto simp: newline_indent_def)

lemma loads_iterencode:
  assumes "wf_val v"
  shows "json_loads (iterencode opts 0 v) = Inr (listified v)"
proof -
  let ?s = "iterencode opts 0 v"
  have "skip_ws ?s = ?s"
    using skip_ws_first_ok[OF iterencode_first_ok[OF assms], of opts 0 "[]"] by simp
  moreover have "need v \<le> 2 * length ?s + 2"
    using need_bound(1)[OF assms, of opts 0] by simp
  then have "scan_once (2 * length ?s + 2) (?s @ []) = Some (listified v, [])"
    by (rule decode_encode(1)[OF assms delim_simps(3)])
  ultimately show ?thesis by (simp add: json_loads_def skip_ws_def)
qed

subsection \<open>Sorted keys and equality\<close>

lemma distinct_keys_sort_key:
  "distinct (map fst (sort_key fst ys)) = distinct (map fst ys)"
  by (simp add: distinct_map)

lemma keys_listified: "map fst (map (\<lambda>(k, v). (k, f v)) kvs) = map fst kvs"
  by (induction kvs) auto

lemma wf_val_sort_items: "wf_val v \<Longrightarrow> wf_val (sort_items v)"
proof (induction v rule: sort_items.induct)
  case (1 xs)
  then show ?case by (auto simp: list_all_iff)
next
  case (2 xs)
  then show ?case by (auto simp: list_all_iff)
next
  case (3 kvs)
  have "distinct (map fst (map (\<lambda>(k, v). (k, sort_items v)) kvs))"
    using "3.prems" by (simp only: keys_listified wf_val.simps)
  moreover have "list_all (\<lambda>(k, v). wf_val v) (map (\<lambda>(k, v). (k, sort_items v)) kvs)"
    using 3 by (auto simp: list_all_iff)
  ultimately show ?case
    by (simp add: distinct_keys_sort_key list_all_iff)
qed simp_all

lemma json_native_sort_items: "json_native v \<Longrightarrow> json_native (sort_items v)"
proof (induction v rule: sort_items.induct)
  case (1 xs)
  then show ?case by (auto simp: list_all_iff)
next
  case (3 kvs)
  then show ?case by (auto simp: list_all_iff)
qed simp_all

lemma listified_native: "json_native v \<Longrightarrow> listified v = v"
proof (induction v rule: listified.induct)
  case (1 xs)
  then show ?case by (auto simp: list_all_iff map_idI)
next
  case (3 kvs)
  then have "map (\<lambda>(k, v). (k, listified v)) kvs = map (\<lambda>kv. kv) kvs"
    by (intro map_cong) (auto simp: list_all_iff)
  then show ?case by simp
qed simp_all

lemma map_of_distinct_member:
  "distinct (map fst kvs) \<Longrightarrow> (k, v) \<in> set kvs \<Longrightarrow> map_of kvs k = Some v"
  by simp

lemma float_eq_refl: "x \<noteq> NaN \<Longrightarrow> float_eq x x"
  by (cases x) simp_all

lemma py_eq_sort_items:
  "wf_val v \<Longrightarrow> json_native v \<Longrightarrow> py_eq (sort_items v) v"
proof (induction v rule: sort_items.induct)
  case (1 xs)
  then show ?case by (auto simp: list_all_iff)
next
  case (2 xs)
  then show ?case by simp
next
  case (3 kvs)
  from "3.prems" have dist: "distinct (map fst kvs)" by simp
  have "case map_of kvs k of None \<Rightarrow> False | Some v' \<Rightarrow> py_eq w v'"
    if "(k, w) \<in> set (map (\<lambda>(k, v). (k, sort_items v)) kvs)" for k w
  proof -
    from that obtain v where v: "(k, v) \<in> set kvs" and w: "w = sort_items v" by auto
    from v "3.prems" have "wf_val v" "json_native v" by (auto simp: list_all_iff)
    with "3.IH"[OF v] w have "py_eq w v" by simp
    with map_of_distinct_member[OF dist v] show ?thesis by simp
  qed
  then have "\<forall>(k, w) \<in> set (sort_key fst (map (\<lambda>(k, v). (k, sort_items v)) kvs)).
               case map_of kvs k of None \<Rightarrow> False | Some v' \<Rightarrow> py_eq w v'"
    by (simp only: set_sort) blast
  then show ?case by simp
qed (simp_all add: float_eq_refl)

lemma py_eq_refl: "wf_val v \<Longrightarrow> json_native v \<Longrightarrow> py_eq v v"
proof (induction v rule: sort_items.induct)
  case (1 xs)
  then show ?case by (auto simp: list_all_iff)
next
  case (3 kvs)
  from "3.prems" have dist: "distinct (map fst kvs)" by simp
  have "case map_of kvs k of None \<Rightarrow> False | Some v' \<Rightarrow> py_eq w v'"
    if v: "(k, w) \<in> set kvs" for k w
  proof -
    from v "3.prems" have "wf_val w" "json_native w" by (auto simp: list_all_iff)
    with "3.IH"[OF v] have "py_eq w w" by simp
    with map_of_distinct_member[OF dist v] show ?thesis by simp
  qed
  then show ?case by auto
qed (simp_all add: float_eq_refl)

lemma loads_dumps:
  assumes "wf_val v"
  shows "json_loads (json_dumps opts v)
           = Inr (listified (if sort_keys opts then sort_items v else v))"
  using loads_iterencode[OF assms] loads_iterencode[OF wf_val_sort_items[OF assms]]
  by (simp add: json_dumps_def)

lemma loads_dumps_native:
  assumes "wf_val v" and "json_native v"
  shows "\<exists>w. json_loads (json_dumps opts v) = Inr w \<and> py_eq w v \<and>
             (\<not> sort_keys opts \<longrightarrow> w = v)"
  using loads_dumps[OF assms(1), of opts] assms
    listified_native[OF assms(2)] listified_native[OF json_native_sort_items[OF assms(2)]]
    py_eq_sort_items[OF assms] py_eq_refl[OF assms]
  by (cases "sort_keys opts") simp_all


section \<open>Properties of the model-config persistence\<close>



lemma keys_setitem: "set (map fst (setitem k v d)) = insert k (set (map fst d))"
  by (induction d) auto

lemma distinct_setitem: "distinct (map fst d) \<Longrightarrow> distinct (map fst (setitem k v d))"
  by (induction d) (auto simp: keys_setitem[simplified])



text \<open>
  Claim C2, as amended. When no file exists at \<open>config_path\<close>, \<open>get_model_config\<close> raises
  \<open>FileNotFoundError\<close>. When the path exists, it raises nothing, and it returns the empty
  mapping whenever the file cannot be read, its text is not JSON, the JSON value is not
  an object, or the object does not contain the key.
\<close>

theorem get_model_config_cases:
  "(\<not> path_exists f p \<longrightarrow> get_model_config key p f = Inl FileNotFoundError) \<and>
   (path_exists f p \<longrightarrow> (\<exists>v. get_model_config key p f = Inr v)) \<and>
   (path_exists f p \<and> (\<exists>e. open_read f p = Inl e) \<longrightarrow> get_model_config key p f = Inr (PDict [])) \<and>
   (\<forall>txt. path_exists f p \<and> open_read f p = Inr txt \<and> (\<forall>d. json_loads txt \<noteq> Inr (PDict d))
          \<longrightarrow> get_model_config key p f = Inr (PDict [])) \<and>
   (\<forall>txt d. path_exists f p \<and> open_read f p = Inr txt \<and> json_loads txt = Inr (PDict d) \<and>
            key \<notin> set (map fst d)
          \<longrightarrow> get_model_config key p f = Inr (PDict []))"
proof -
  have absent: "map_of d key = None" if "key \<notin> set (map fst d)" for d :: pydict
    using that by (simp add: map_of_eq_None_iff)
  show ?thesis
    by (auto simp: get_model_config_def absent
             split: sum.splits pyval.splits option.splits)
qed


text \<open>
  Claim C2, as stated, fails for an absent file: the guard in lines 187 and 188 raises
  \<open>FileNotFoundError\<close> before the \<open>try\<close> block is entered.
\<close>

theorem get_model_config_missing_file_counterexample:
  "\<not> path_exists Map.empty ''missing.json'' \<and>
   get_model_config ''bert'' ''missing.json'' Map.empty = Inl FileNotFoundError \<and>
   get_model_config ''bert'' ''missing.json'' Map.empty \<noteq> Inr (PDict [])"
  by (simp add: get_model_config_def path_exists_def)

theorem get_model_config_cases_witness:
  "get_model_config ''bert'' ''missing.json''
       [''cfg.json'' \<mapsto> File True True [CHR ''{'', DQ, CHR ''a'', DQ, CHR '':'', SP, CHR ''1'', CHR ''}'']]
     = Inl FileNotFoundError \<and>
   get_model_config ''bert'' ''cfg.json''
       [''cfg.json'' \<mapsto> File True True [CHR ''{'', DQ, CHR ''a'', DQ, CHR '':'', SP, CHR ''1'', CHR ''}'']]
     = Inr (PDict []) \<and>
   get_model_config ''bert'' ''cfg.json'' [''cfg.json'' \<mapsto> File True True ''[1, 2'']
     = Inr (PDict []) \<and>
   get_model_config ''bert'' ''cfg.json'' [''cfg.json'' \<mapsto> File False True ''{}'']
     = Inr (PDict [])"
proof -
  let ?good = "[CHR ''{'', DQ, CHR ''a'', DQ, CHR '':'', SP, CHR ''1'', CHR ''}'']"
  have parsed: "json_loads ?good = Inr (PDict [(''a'', PInt 1)])"
    by code_simp
  have broken: "json_loads ''[1, 2'' = Inl JSONDecodeError"
    by code_simp
  have a: "get_model_config ''bert'' ''missing.json'' [''cfg.json'' \<mapsto> File True True ?good]
             = Inl FileNotFoundError"
    using get_model_config_cases[of "[''cfg.json'' \<mapsto> File True True ?good]"
                                    "''missing.json''" "''bert''"]
    by (simp add: path_exists_def)
  have b: "get_model_config ''bert'' ''cfg.json'' [''cfg.json'' \<mapsto> File True True ?good]
             = Inr (PDict [])"
    using get_model_config_cases[of "[''cfg.json'' \<mapsto> File True True ?good]"
                                    "''cfg.json''" "''bert''"] parsed
    by (simp add: path_exists_def open_read_def)
  have c: "get_model_config ''bert'' ''cfg.json'' [''cfg.json'' \<mapsto> File True True ''[1, 2'']
             = Inr (PDict [])"
    using get_model_config_cases[of "[''cfg.json'' \<mapsto> File True True ''[1, 2'']"
                                    "''cfg.json''" "''bert''"] broken
    by (simp add: path_exists_def open_read_def)
  have d: "get_model_config ''bert'' ''cfg.json'' [''cfg.json'' \<mapsto> File False True ''{}'']
             = Inr (PDict [])"
    using get_model_config_cases[of "[''cfg.json'' \<mapsto> File False True ''{}'']"
                                    "''cfg.json''" "''bert''"]
    by (simp add: path_exists_def open_read_def)
  from a b c d show ?thesis by simp
qed



end
